theory Spec2Isabelle
  imports Main "HOL-Library.AList"
begin

section \<open>JSON text\<close>

text \<open>
  The codec of \<^verbatim>\<open>index.js\<close> stores the response headers as JSON text in the first 1024
  bytes of a cache value. \<^verbatim>\<open>JSON.stringify\<close> and \<^verbatim>\<open>JSON.parse\<close> are built into the
  platform; they are modelled for the values null, booleans, integers, strings, arrays
  and objects. A string is the list of its UTF-8 bytes, so the length of a string in
  bytes is the length of the list. An object is the list of its properties in
  enumeration order; its keys are distinct, and the reordering of keys that look like
  array indices is not modelled. Numbers are integers: a number with a fraction or an
  exponent is outside the model, and the parser rejects it.
\<close>

datatype json =
    JNull
  | JBool bool
  | JNum int
  | JStr string
  | JArr "json list"
  | JObj "(string \<times> json) list"

definition digit_char :: "nat \<Rightarrow> char" where
  "digit_char d = char_of (48 + d)"

definition is_digit :: "char \<Rightarrow> bool" where
  "is_digit c = (48 \<le> (of_char c :: nat) \<and> (of_char c :: nat) \<le> 57)"

definition digit_val :: "char \<Rightarrow> nat" where
  "digit_val c = of_char c - 48"

function dec_nat :: "nat \<Rightarrow> string" where
  "dec_nat n = (if n < 10 then [digit_char n] else dec_nat (n div 10) @ [digit_char (n mod 10)])"
  by pat_completeness auto
termination
  by (relation "measure id") auto

declare dec_nat.simps [simp del]

definition dec_int :: "int \<Rightarrow> string" where
  "dec_int i = (if i < 0 then CHR ''-'' # dec_nat (nat (- i)) else dec_nat (nat i))"

definition hex_digit :: "nat \<Rightarrow> char" where
  "hex_digit d = (if d < 10 then char_of (48 + d) else char_of (87 + d))"

definition esc :: "char \<Rightarrow> string" where
  "esc c =
    (let n = (of_char c :: nat) in
     if n = 0x22 then [CHR 0x5C, CHR 0x22]
     else if n = 0x5C then [CHR 0x5C, CHR 0x5C]
     else if n = 0x08 then [CHR 0x5C, CHR ''b'']
     else if n = 0x0C then [CHR 0x5C, CHR ''f'']
     else if n = 0x0A then [CHR 0x5C, CHR ''n'']
     else if n = 0x0D then [CHR 0x5C, CHR ''r'']
     else if n = 0x09 then [CHR 0x5C, CHR ''t'']
     else if n < 0x20 then
       [CHR 0x5C, CHR ''u'', CHR ''0'', CHR ''0'', hex_digit (n div 16), hex_digit (n mod 16)]
     else [c])"

definition quote :: "string \<Rightarrow> string" where
  "quote s = CHR 0x22 # concat (map esc s) @ [CHR 0x22]"

fun join_commas :: "string list \<Rightarrow> string" where
  "join_commas [] = []"
| "join_commas [x] = x"
| "join_commas (x # y # ys) = x @ CHR '','' # join_commas (y # ys)"

fun JSON_stringify :: "json \<Rightarrow> string" where
  "JSON_stringify JNull = ''null''"
| "JSON_stringify (JBool b) = (if b then ''true'' else ''false'')"
| "JSON_stringify (JNum n) = dec_int n"
| "JSON_stringify (JStr s) = quote s"
| "JSON_stringify (JArr xs) = CHR ''['' # join_commas (map JSON_stringify xs) @ '']''"
| "JSON_stringify (JObj kvs) =
     CHR ''{'' # join_commas (map (\<lambda>(k, v). quote k @ CHR '':'' # JSON_stringify v) kvs) @ ''}''"


text \<open>
  The parser is a recursive descent over the text. Its first argument bounds the number
  of nested calls; \<open>JSON_parse\<close> supplies twice the length of the text plus one. An
  object is built property by property, so a repeated key keeps its first position and
  its last value.
\<close>

definition is_ws :: "char \<Rightarrow> bool" where
  "is_ws c = (c = CHR '' '' \<or> c = CHR 0x09 \<or> c = CHR 0x0A \<or> c = CHR 0x0D)"

definition skip_ws :: "string \<Rightarrow> string" where
  "skip_ws s = dropWhile is_ws s"

definition hex_val :: "char \<Rightarrow> nat option" where
  "hex_val c =
    (let n = (of_char c :: nat) in
     if 48 \<le> n \<and> n \<le> 57 then Some (n - 48)
     else if 97 \<le> n \<and> n \<le> 102 then Some (n - 87)
     else if 65 \<le> n \<and> n \<le> 70 then Some (n - 55)
     else None)"

definition hex4 :: "char \<Rightarrow> char \<Rightarrow> char \<Rightarrow> char \<Rightarrow> nat option" where
  "hex4 a b c d =
    (case (hex_val a, hex_val b, hex_val c, hex_val d) of
       (Some w, Some x, Some y, Some z) \<Rightarrow> Some (4096 * w + 256 * x + 16 * y + z)
     | _ \<Rightarrow> None)"

definition utf8 :: "nat \<Rightarrow> string" where
  "utf8 cp =
    (if cp < 0x80 then [char_of cp]
     else if cp < 0x800 then [char_of (0xC0 + cp div 64), char_of (0x80 + cp mod 64)]
     else [char_of (0xE0 + cp div 4096), char_of (0x80 + (cp div 64) mod 64),
           char_of (0x80 + cp mod 64)])"

definition unescape :: "char \<Rightarrow> char option" where
  "unescape e =
    (if e = CHR 0x22 then Some (CHR 0x22)
     else if e = CHR 0x5C then Some (CHR 0x5C)
     else if e = CHR ''/'' then Some (CHR ''/'')
     else if e = CHR ''b'' then Some (CHR 0x08)
     else if e = CHR ''f'' then Some (CHR 0x0C)
     else if e = CHR ''n'' then Some (CHR 0x0A)
     else if e = CHR ''r'' then Some (CHR 0x0D)
     else if e = CHR ''t'' then Some (CHR 0x09)
     else None)"

fun parse_chars :: "string \<Rightarrow> (string \<times> string) option" where
  "parse_chars [] = None"
| "parse_chars (c # cs) =
    (if c = CHR 0x22 then Some ([], cs)
     else if c = CHR 0x5C then
       (case cs of
          [] \<Rightarrow> None
        | e # r \<Rightarrow>
            if e = CHR ''u'' then
              (case r of
                 h1 # h2 # h3 # h4 # r' \<Rightarrow>
                   (case hex4 h1 h2 h3 h4 of
                      None \<Rightarrow> None
                    | Some cp \<Rightarrow> map_option (apfst ((@) (utf8 cp))) (parse_chars r'))
               | _ \<Rightarrow> None)
            else
              (case unescape e of
                 None \<Rightarrow> None
               | Some x \<Rightarrow> map_option (apfst ((#) x)) (parse_chars r)))
     else if (of_char c :: nat) < 0x20 then None
     else map_option (apfst ((#) c)) (parse_chars cs))"

fun nat_of_digits :: "nat \<Rightarrow> string \<Rightarrow> nat" where
  "nat_of_digits acc [] = acc"
| "nat_of_digits acc (c # cs) = nat_of_digits (10 * acc + digit_val c) cs"

definition parse_number :: "string \<Rightarrow> (json \<times> string) option" where
  "parse_number s =
    (let neg = (s \<noteq> [] \<and> hd s = CHR ''-'');
         s1 = (if neg then tl s else s);
         ds = takeWhile is_digit s1;
         rest = dropWhile is_digit s1
     in if ds = [] \<or> (1 < length ds \<and> hd ds = CHR ''0'') then None
        else if rest \<noteq> [] \<and> (hd rest = CHR ''.'' \<or> hd rest = CHR ''e'' \<or> hd rest = CHR ''E'') then None
        else Some (JNum (if neg then - int (nat_of_digits 0 ds) else int (nat_of_digits 0 ds)), rest))"

definition obj_set :: "(string \<times> json) list \<Rightarrow> string \<Rightarrow> json \<Rightarrow> (string \<times> json) list" where
  "obj_set kvs k v = AList.update k v kvs"

definition obj_delete :: "(string \<times> json) list \<Rightarrow> string \<Rightarrow> (string \<times> json) list" where
  "obj_delete kvs k = AList.delete k kvs"

definition obj_of_members :: "(string \<times> json) list \<Rightarrow> (string \<times> json) list" where
  "obj_of_members ms = foldl (\<lambda>kvs (k, v). obj_set kvs k v) [] ms"

fun parse_value :: "nat \<Rightarrow> string \<Rightarrow> (json \<times> string) option"
  and parse_elems :: "nat \<Rightarrow> string \<Rightarrow> (json list \<times> string) option"
  and parse_members :: "nat \<Rightarrow> string \<Rightarrow> ((string \<times> json) list \<times> string) option"
where
  "parse_value 0 s = None"
| "parse_value (Suc f) s =
    (case skip_ws s of
       [] \<Rightarrow> None
     | c # cs \<Rightarrow>
         if c = CHR ''{'' then
           (case skip_ws cs of
              [] \<Rightarrow> None
            | d # ds \<Rightarrow>
                if d = CHR ''}'' then Some (JObj [], ds)
                else map_option (apfst (\<lambda>ms. JObj (obj_of_members ms))) (parse_members f cs))
         else if c = CHR ''['' then
           (case skip_ws cs of
              [] \<Rightarrow> None
            | d # ds \<Rightarrow>
                if d = CHR '']'' then Some (JArr [], ds)
                else map_option (apfst JArr) (parse_elems f cs))
         else if c = CHR 0x22 then map_option (apfst JStr) (parse_chars cs)
         else if take 4 (c # cs) = ''null'' then Some (JNull, drop 3 cs)
         else if take 4 (c # cs) = ''true'' then Some (JBool True, drop 3 cs)
         else if take 5 (c # cs) = ''false'' then Some (JBool False, drop 4 cs)
         else parse_number (c # cs))"
| "parse_elems 0 s = None"
| "parse_elems (Suc f) s =
    (case parse_value f s of
       None \<Rightarrow> None
     | Some (v, r) \<Rightarrow>
         (case skip_ws r of
            [] \<Rightarrow> None
          | c # cs \<Rightarrow>
              if c = CHR '','' then map_option (apfst ((#) v)) (parse_elems f cs)
              else if c = CHR '']'' then Some ([v], cs)
              else None))"
| "parse_members 0 s = None"
| "parse_members (Suc f) s =
    (case skip_ws s of
       [] \<Rightarrow> None
     | q # s1 \<Rightarrow>
         if q \<noteq> CHR 0x22 then None
         else
           (case parse_chars s1 of
              None \<Rightarrow> None
            | Some (k, s2) \<Rightarrow>
                (case skip_ws s2 of
                   [] \<Rightarrow> None
                 | col # s3 \<Rightarrow>
                     if col \<noteq> CHR '':'' then None
                     else
                       (case parse_value f s3 of
                          None \<Rightarrow> None
                        | Some (v, s4) \<Rightarrow>
                            (case skip_ws s4 of
                               [] \<Rightarrow> None
                             | c # cs \<Rightarrow>
                                 if c = CHR '','' then
                                   map_option (apfst ((#) (k, v))) (parse_members f cs)
                                 else if c = CHR ''}'' then Some ([(k, v)], cs)
                                 else None)))))"

definition JSON_parse :: "string \<Rightarrow> json option" where
  "JSON_parse s =
    (case parse_value (2 * length s + 1) s of
       None \<Rightarrow> None
     | Some (v, r) \<Rightarrow> if skip_ws r = [] then Some v else None)"

subsection \<open>Well-formed values and the measures used in the proofs\<close>

text \<open>
  \<open>wf_json\<close> holds of the values whose objects have distinct keys, as every JavaScript
  object has. \<open>fuel_need\<close> bounds the recursion depth the parser needs for a value,
  \<open>follow_ok\<close> describes the text that may follow a number.
\<close>

fun wf_json :: "json \<Rightarrow> bool" where
  "wf_json (JArr xs) = list_all wf_json xs"
| "wf_json (JObj kvs) = (distinct (map fst kvs) \<and> list_all (\<lambda>(k, v). wf_json v) kvs)"
| "wf_json _ = True"

definition follow_ok :: "string \<Rightarrow> bool" where
  "follow_ok r = (r = [] \<or> (\<not> is_digit (hd r) \<and> hd r \<noteq> CHR ''.'' \<and> hd r \<noteq> CHR ''e'' \<and> hd r \<noteq> CHR ''E''))"

fun fuel_need :: "json \<Rightarrow> nat" where
  "fuel_need (JArr xs) = Suc (sum_list (map (\<lambda>x. Suc (fuel_need x)) xs))"
| "fuel_need (JObj kvs) = Suc (sum_list (map (\<lambda>(k, v). Suc (fuel_need v)) kvs))"
| "fuel_need _ = 1"

definition num_head :: "char \<Rightarrow> bool" where
  "num_head c = (is_digit c \<or> c = CHR ''-'')"

abbreviation member_str :: "string \<times> json \<Rightarrow> string" where
  "member_str \<equiv> (\<lambda>(k, v). quote k @ CHR '':'' # JSON_stringify v)"

subsection \<open>JavaScript coercions on JSON values\<close>

text \<open>
  The source applies JavaScript's implicit conversions to header values: truthiness in
  \<^verbatim>\<open>if (expires)\<close> and \<^verbatim>\<open>a || b\<close>, property reads and writes, the loose
  comparison \<^verbatim>\<open>!=\<close> and \<^verbatim>\<open>new Date(v)\<close>. They are written out for the JSON value
  domain. Property reads are only taken at the names the source uses
  (\<^verbatim>\<open>x-tl-json\<close>, \<^verbatim>\<open>content-length\<close>, \<^verbatim>\<open>x-tl-expires\<close>, \<^verbatim>\<open>length\<close>), none of which
  is an array index or found on a prototype. An absent property, \<^verbatim>\<open>undefined\<close>, is
  \<open>None\<close>. The conversion of a string to a number covers decimal digits with an
  optional sign and surrounding white space; any other spelling converts to NaN, which
  is \<open>None\<close>. Two values compared by \<^verbatim>\<open>!=\<close> are never the same object.
\<close>

datatype exn =
    HeadersExceed
  | InvalidCacheValue
  | ContentLengthMismatch
  | SyntaxError
  | TypeError

fun truthy :: "json \<Rightarrow> bool" where
  "truthy JNull = False"
| "truthy (JBool b) = b"
| "truthy (JNum n) = (n \<noteq> 0)"
| "truthy (JStr s) = (s \<noteq> [])"
| "truthy (JArr xs) = True"
| "truthy (JObj kvs) = True"

definition truthy_opt :: "json option \<Rightarrow> bool" where
  "truthy_opt v = (case v of None \<Rightarrow> False | Some j \<Rightarrow> truthy j)"

definition js_or :: "json option \<Rightarrow> json option \<Rightarrow> json option" where
  "js_or a b = (if truthy_opt a then a else b)"

definition utf16_length :: "string \<Rightarrow> nat" where
  "utf16_length s =
     length (filter (\<lambda>c. \<not> (128 \<le> (of_char c :: nat) \<and> (of_char c :: nat) < 192)) s)
     + length (filter (\<lambda>c. 240 \<le> (of_char c :: nat)) s)"

fun prop_get :: "json \<Rightarrow> string \<Rightarrow> exn + json option" where
  "prop_get JNull k = Inl TypeError"
| "prop_get (JObj kvs) k = Inr (map_of kvs k)"
| "prop_get (JArr xs) k = Inr (if k = ''length'' then Some (JNum (int (length xs))) else None)"
| "prop_get (JStr s) k = Inr (if k = ''length'' then Some (JNum (int (utf16_length s))) else None)"
| "prop_get (JBool b) k = Inr None"
| "prop_get (JNum n) k = Inr None"

fun prop_set :: "json \<Rightarrow> string \<Rightarrow> json \<Rightarrow> exn + json" where
  "prop_set JNull k x = Inl TypeError"
| "prop_set (JObj kvs) k x = Inr (JObj (obj_set kvs k x))"
| "prop_set v k x = Inr v"

fun js_toString :: "json \<Rightarrow> string" where
  "js_toString JNull = ''null''"
| "js_toString (JBool b) = (if b then ''true'' else ''false'')"
| "js_toString (JNum n) = dec_int n"
| "js_toString (JStr s) = s"
| "js_toString (JArr xs) =
     join_commas (map (\<lambda>x. if x = JNull then [] else js_toString x) xs)"
| "js_toString (JObj kvs) = ''[object Object]''"

definition is_trim_ws :: "char \<Rightarrow> bool" where
  "is_trim_ws c = (c = CHR '' '' \<or> (9 \<le> (of_char c :: nat) \<and> (of_char c :: nat) \<le> 13))"

definition trim :: "string \<Rightarrow> string" where
  "trim s = rev (dropWhile is_trim_ws (rev (dropWhile is_trim_ws s)))"

definition str_to_int :: "string \<Rightarrow> int option" where
  "str_to_int s =
    (let t = trim s;
         neg = (t \<noteq> [] \<and> hd t = CHR ''-'');
         ds = (if t \<noteq> [] \<and> (hd t = CHR ''-'' \<or> hd t = CHR ''+'') then tl t else t)
     in if t = [] then Some 0
        else if ds \<noteq> [] \<and> list_all is_digit ds then
          Some (if neg then - int (nat_of_digits 0 ds) else int (nat_of_digits 0 ds))
        else None)"

fun to_number :: "json \<Rightarrow> int option" where
  "to_number JNull = Some 0"
| "to_number (JBool b) = Some (if b then 1 else 0)"
| "to_number (JNum n) = Some n"
| "to_number (JStr s) = str_to_int s"
| "to_number (JArr xs) = str_to_int (js_toString (JArr xs))"
| "to_number (JObj kvs) = str_to_int (js_toString (JObj kvs))"

fun is_object :: "json \<Rightarrow> bool" where
  "is_object (JArr xs) = True"
| "is_object (JObj kvs) = True"
| "is_object v = False"

fun as_string :: "json \<Rightarrow> string option" where
  "as_string (JStr s) = Some s"
| "as_string (JArr xs) = Some (js_toString (JArr xs))"
| "as_string (JObj kvs) = Some (js_toString (JObj kvs))"
| "as_string v = None"

definition loose_eq :: "json \<Rightarrow> json \<Rightarrow> bool" where
  "loose_eq x y =
    (if x = JNull \<or> y = JNull then x = y
     else if is_object x \<and> is_object y then False
     else
       (case (as_string x, as_string y) of
          (Some s, Some t) \<Rightarrow> s = t
        | _ \<Rightarrow>
          (case (to_number x, to_number y) of
             (Some m, Some n) \<Rightarrow> m = n
           | _ \<Rightarrow> False)))"

definition loose_neq :: "json \<Rightarrow> json option \<Rightarrow> bool" where
  "loose_neq x y = (case y of None \<Rightarrow> x \<noteq> JNull | Some v \<Rightarrow> \<not> loose_eq x v)"

subsection \<open>The platform's Date\<close>

text \<open>
  \<^verbatim>\<open>Date.parse\<close> and \<^verbatim>\<open>Date.prototype.toUTCString\<close> belong to the JavaScript
  platform, and the set of date strings the parser accepts is left to the implementation.
  They are parameters of the model. Instants are milliseconds since the epoch; \<open>None\<close>
  is the invalid date, whose number is NaN.
\<close>

record platform =
  Date_parse :: "string \<Rightarrow> int option"
  toUTCString :: "int \<Rightarrow> string"

fun js_date :: "platform \<Rightarrow> json \<Rightarrow> int option" where
  "js_date P (JStr s) = Date_parse P s"
| "js_date P (JNum n) = (if \<bar>n\<bar> \<le> 8640000000000000 then Some n else None)"
| "js_date P (JBool b) = Some (if b then 1 else 0)"
| "js_date P JNull = Some 0"
| "js_date P (JArr xs) = Date_parse P (js_toString (JArr xs))"
| "js_date P (JObj kvs) = Date_parse P (js_toString (JObj kvs))"

section \<open>The codec\<close>

text \<open>
  An upstream or store error is an object that may carry a numeric \<^verbatim>\<open>statusCode\<close>; the
  source adds \<^verbatim>\<open>tlcache\<close> to errors it rebuilds from a sentinel and \<^verbatim>\<open>key\<close> to errors
  it reports. A payload handed to \<^verbatim>\<open>encode\<close> is absent (\<^verbatim>\<open>undefined\<close> or \<^verbatim>\<open>null\<close>), a
  string, a Buffer, or a structured value (an array or a plain object). Strings are
  modelled by their UTF-8 bytes, so \<^verbatim>\<open>new Buffer(s)\<close> and \<^verbatim>\<open>toString()\<close> keep the bytes.
\<close>

record js_error =
  statusCode :: "int option"
  tlcache :: bool
  key :: "string option"

datatype payload =
    PAbsent
  | PStr string
  | PBuf string
  | PArr "json list"
  | PDict "(string \<times> json) list"

datatype dpayload = DBuf string | DJson json

datatype enc = EncNull | EncStr string | EncBuf string

record entry =
  err :: "js_error option"
  headers :: "json option"
  buffer :: "dpayload option"

text \<open>
  Header objects are shared between the upstream result, \<^verbatim>\<open>setEx\<close>, \<^verbatim>\<open>encode\<close> and the
  caller's callback, and the source updates them in place. They live in a store of
  objects addressed by references; \<^verbatim>\<open>{}\<close> allocates a new cell.
\<close>

type_synonym ref = nat

record heap =
  cells :: "ref \<Rightarrow> (string \<times> json) list"
  nxt :: ref

definition alloc :: "(string \<times> json) list \<Rightarrow> heap \<Rightarrow> ref \<times> heap" where
  "alloc obj s = (nxt s, s\<lparr>cells := (cells s)(nxt s := obj), nxt := Suc (nxt s)\<rparr>)"

definition heap_set :: "ref \<Rightarrow> string \<Rightarrow> json \<Rightarrow> heap \<Rightarrow> heap" where
  "heap_set r k v s = s\<lparr>cells := (cells s)(r := obj_set (cells s r) k v)\<rparr>"

definition heap_delete :: "ref \<Rightarrow> string \<Rightarrow> heap \<Rightarrow> heap" where
  "heap_delete r k s = s\<lparr>cells := (cells s)(r := obj_delete (cells s r) k)\<rparr>"

text \<open>
  \<^verbatim>\<open>
  function errcode(err) {
      if (!err) return;
      if (err.statusCode === 404) return 404;
      if (err.statusCode === 403) return 403;
      return;
  }
  \<close>
\<close>

definition errcode :: "js_error option \<Rightarrow> int option" where
  "errcode er =
    (case er of
       None \<Rightarrow> None
     | Some e \<Rightarrow>
         if statusCode e = Some 404 then Some 404
         else if statusCode e = Some 403 then Some 403
         else None)"

text \<open>
  \<^verbatim>\<open>
  function encode(err, buffer, headers) {
      if (errcode(err)) return errcode(err).toString();
      // Unhandled error.
      if (err) return null;
      headers = headers || {};
      // Turn objects into JSON string buffers.
      if (buffer && typeof buffer === 'object' && !(buffer instanceof Buffer)) {
          headers['x-tl-json'] = true;
          buffer = new Buffer(JSON.stringify(buffer));
      // Turn strings into buffers.
      } else if (buffer && !(buffer instanceof Buffer)) {
          buffer = new Buffer(buffer);
      }
      headers = new Buffer(JSON.stringify(headers), 'utf8');
      if (headers.length > 1024) {
          throw new Error('Invalid cache value - headers exceed 1024 bytes: ' + ...);
      }
      var padding = new Buffer(1024 - headers.length);
      padding.fill(' ');
      var len = headers.length + padding.length + buffer.length;
      return Buffer.concat([headers, padding, buffer], len);
  }
  \<close>
  The result is the returned value or the exception, and the store of objects after the
  call. A falsy payload (absent, or the empty string) skips both conversions: an absent
  one fails at \<^verbatim>\<open>buffer.length\<close>, the empty string in \<^verbatim>\<open>Buffer.concat\<close>, which
  accepts Buffers only. Both are TypeErrors, and both come after the size check.
\<close>

definition encode ::
  "js_error option \<Rightarrow> payload \<Rightarrow> ref option \<Rightarrow> heap \<Rightarrow> (exn + enc) \<times> heap" where
  "encode er buf hdrs s =
    (case errcode er of
       Some c \<Rightarrow> (Inr (EncStr (dec_int c)), s)
     | None \<Rightarrow>
         if er \<noteq> None then (Inr EncNull, s)
         else
           (let (r, s1) = (case hdrs of Some r \<Rightarrow> (r, s) | None \<Rightarrow> alloc [] s);
                (buf', s2) =
                  (case buf of
                     PArr xs \<Rightarrow>
                       (PBuf (JSON_stringify (JArr xs)), heap_set r ''x-tl-json'' (JBool True) s1)
                   | PDict kvs \<Rightarrow>
                       (PBuf (JSON_stringify (JObj kvs)), heap_set r ''x-tl-json'' (JBool True) s1)
                   | PStr t \<Rightarrow> (if t \<noteq> [] then PBuf t else PStr t, s1)
                   | PBuf b \<Rightarrow> (PBuf b, s1)
                   | PAbsent \<Rightarrow> (PAbsent, s1));
                hs = JSON_stringify (JObj (cells s2 r))
            in if 1024 < length hs then (Inl HeadersExceed, s2)
               else
                 (case buf' of
                    PBuf b \<Rightarrow> (Inr (EncBuf (hs @ replicate (1024 - length hs) CHR '' '' @ b)), s2)
                  | _ \<Rightarrow> (Inl TypeError, s2))))"

text \<open>\<^verbatim>\<open>data.buffer.length\<close>: the byte count of a Buffer, the \<^verbatim>\<open>length\<close> property of a
  parsed value otherwise.\<close>

fun js_length :: "dpayload \<Rightarrow> exn + json option" where
  "js_length (DBuf b) = Inr (Some (JNum (int (length b))))"
| "js_length (DJson j) = prop_get j ''length''"

definition content_length_check :: "json option \<Rightarrow> dpayload \<Rightarrow> exn + unit" where
  "content_length_check cl b =
    (case cl of
       None \<Rightarrow> Inr ()
     | Some c \<Rightarrow>
         if truthy c then
           (case js_length b of
              Inl x \<Rightarrow> Inl x
            | Inr len \<Rightarrow> if loose_neq c len then Inl ContentLengthMismatch else Inr ())
         else Inr ())"

text \<open>
  \<^verbatim>\<open>
  function decode(encoded) {
      if (encoded.length == 3) {
          encoded = encoded.toString();
          if (encoded === '404' || encoded === '403') {
              var err = new Error();
              err.statusCode = parseInt(encoded, 10);
              err.tlcache= true;
              return { err: err };
          }
      }
      // First 1024 bytes reserved for header + padding.
      var offset = 1024;
      var data = {};
      data.headers = encoded.slice(0, offset).toString().trim();
      try {
          data.headers = JSON.parse(data.headers);
      } catch(e) {
          throw new Error('Invalid cache value');
      }
      data.headers['x-tl-cache'] = 'hit';
      data.buffer = encoded.slice(offset);
      // Return JSON-encoded objects to true form.
      if (data.headers['x-tl-json']) data.buffer = JSON.parse(data.buffer);
      if (data.headers['content-length'] &&
          data.headers['content-length'] != data.buffer.length)
          throw new Error('Content length does not match');
      return data;
  }
  \<close>
  The stored value is a Buffer, modelled by its bytes. \<^verbatim>\<open>trim\<close> removes the ASCII
  white space at both ends; white space outside ASCII is not modelled. An assignment to
  a property of a number, a string or a boolean has no effect, and on an array it adds
  a property that neither JSON nor the reads below see, so both leave the value as it
  is.
\<close>

definition decode :: "string \<Rightarrow> exn + entry" where
  "decode encoded =
    (if length encoded = 3 \<and> (encoded = ''404'' \<or> encoded = ''403'') then
       Inr \<lparr>err = Some \<lparr>statusCode = Some (if encoded = ''404'' then 404 else 403),
                        tlcache = True, key = None\<rparr>,
            headers = None, buffer = None\<rparr>
     else
       (case JSON_parse (trim (take 1024 encoded)) of
          None \<Rightarrow> Inl InvalidCacheValue
        | Some h0 \<Rightarrow>
            (case prop_set h0 ''x-tl-cache'' (JStr ''hit'') of
               Inl x \<Rightarrow> Inl x
             | Inr h \<Rightarrow>
                 (case prop_get h ''x-tl-json'' of
                    Inl x \<Rightarrow> Inl x
                  | Inr flag \<Rightarrow>
                      (case (if truthy_opt flag then
                               (case JSON_parse (drop 1024 encoded) of
                                  None \<Rightarrow> Inl SyntaxError
                                | Some j \<Rightarrow> Inr (DJson j))
                             else Inr (DBuf (drop 1024 encoded))) of
                         Inl x \<Rightarrow> Inl x
                       | Inr b \<Rightarrow>
                           (case prop_get h ''content-length'' of
                              Inl x \<Rightarrow> Inl x
                            | Inr cl \<Rightarrow>
                                (case content_length_check cl b of
                                   Inl x \<Rightarrow> Inl x
                                 | Inr u \<Rightarrow>
                                     Inr \<lparr>err = None, headers = Some h, buffer = Some b\<rparr>)))))))"

section \<open>The cache orchestrator\<close>

text \<open>
  One request is modelled by the list of calls it makes on its collaborators, in
  program order, given what each collaborator answers. The answers and the clock
  readings form the \<open>world\<close> of the request. The reply of \<^verbatim>\<open>client.set\<close> is
  delivered after the current turn has ended.
\<close>

datatype report = ErrObj js_error | Thrown exn string

datatype cbuf = BUndef | BPayload payload | BDecoded dpayload

datatype hval = HUndef | HRef ref | HVal json

datatype event =
    ClientGet string
  | ClientSet string int enc
  | ClientError report
  | ClientEmit string js_error
  | SourceGet string
  | Callback "js_error option" cbuf hval
  | Uncaught exn

record world =
  store_reply :: "js_error option \<times> string option"
  source_reply :: "js_error option \<times> payload \<times> ref option"
  set_reply :: "js_error option"
  now_fresh :: int
  now_exp :: int
  now_sec :: int
  heap0 :: heap

text \<open>
  \<^verbatim>\<open>
  function setEx(key, err, buffer, headers, ttl, stale) {
      var expires = headers.Expires || headers.expires;
      delete headers.Expires;
      delete headers.expires;
      if (expires) {
          headers.expires = expires;
          headers['x-tl-expires'] = expires;
      } else {
          headers['x-tl-expires'] = (new Date(Date.now() + (ttl * 1000))).toUTCString();
      }
      // seconds from now to expiration time
      var sec = Math.ceil((Number(new Date(headers['x-tl-expires'])) - Number(new Date()))/1000);
      // When an upstream expires is set no stale padding is used
      // so that the upstream expires is fully respected.
      var pad = expires ? 0 : stale;
      if (sec > 0) client.set(key, sec + pad, encode(err, buffer, headers), function(err) {
          if (!err) return;
          err.key = key;
          client.error(err);
      });
      return headers;
  }
  \<close>
  \<open>now1\<close> is the reading of \<^verbatim>\<open>Date.now()\<close> that dates a default expiration,
  \<open>now2\<close> the later reading of \<^verbatim>\<open>new Date()\<close> from which the seconds to live are
  counted; \<open>- ((now2 - t) div 1000)\<close> is the ceiling of \<open>(t - now2) / 1000\<close>. The
  result is the call to \<^verbatim>\<open>client.set\<close> (if any), an exception thrown by \<^verbatim>\<open>encode\<close>
  (if any) and the store of objects after the updates; the headers reference it returns
  is its argument. \<open>set_callback\<close> is the function passed to \<^verbatim>\<open>client.set\<close>.
\<close>

definition setEx ::
  "platform \<Rightarrow> int \<Rightarrow> int \<Rightarrow> string \<Rightarrow> js_error option \<Rightarrow> payload \<Rightarrow> ref \<Rightarrow> int \<Rightarrow> int
     \<Rightarrow> heap \<Rightarrow> (event list \<times> exn option) \<times> heap" where
  "setEx P now1 now2 k er buf r ttl stale s =
    (let expires = js_or (map_of (cells s r) ''Expires'') (map_of (cells s r) ''expires'');
         s1 = heap_delete r ''expires'' (heap_delete r ''Expires'' s);
         x = (case expires of
                Some e \<Rightarrow> if truthy e then e else JStr (toUTCString P (now1 + ttl * 1000))
              | None \<Rightarrow> JStr (toUTCString P (now1 + ttl * 1000)));
         s2 = (if truthy_opt expires
               then heap_set r ''x-tl-expires'' x (heap_set r ''expires'' x s1)
               else heap_set r ''x-tl-expires'' x s1);
         sec = (case map_of (cells s2 r) ''x-tl-expires'' of
                  None \<Rightarrow> None
                | Some v \<Rightarrow> map_option (\<lambda>t. - ((now2 - t) div 1000)) (js_date P v));
         pad = (if truthy_opt expires then 0 else stale)
     in case sec of
          None \<Rightarrow> (([], None), s2)
        | Some n \<Rightarrow>
            if 0 < n then
              (case encode er buf (Some r) s2 of
                 (Inl x, s3) \<Rightarrow> (([], Some x), s3)
               | (Inr v, s3) \<Rightarrow> (([ClientSet k (n + pad) v], None), s3))
            else (([], None), s2))"

definition set_callback :: "string \<Rightarrow> js_error option \<Rightarrow> event list" where
  "set_callback k reply =
    (case reply of None \<Rightarrow> [] | Some e \<Rightarrow> [ClientError (ErrObj (e\<lparr>key := Some k\<rparr>))])"

text \<open>
  \<^verbatim>\<open>
  function isFresh(d) {
      // When we don't have an expires header just assume staleness
      if (d.headers === undefined || !d.headers['x-tl-expires']) return false;
      return (+(new Date(d.headers['x-tl-expires'])) > Date.now());
  }
  \<close>
\<close>

definition isFresh :: "platform \<Rightarrow> int \<Rightarrow> entry \<Rightarrow> exn + bool" where
  "isFresh P now d =
    (case headers d of
       None \<Rightarrow> Inr False
     | Some h \<Rightarrow>
         (case prop_get h ''x-tl-expires'' of
            Inl x \<Rightarrow> Inl x
          | Inr None \<Rightarrow> Inr False
          | Inr (Some v) \<Rightarrow>
              if \<not> truthy v then Inr False
              else (case js_date P v of None \<Rightarrow> Inr False | Some t \<Rightarrow> Inr (now < t))))"

text \<open>
  The two callbacks handed to the underlying fetch:
  \<^verbatim>\<open>
  // Update cache & bump `expires` header            (stale hit)
  get.call(source, url, function(err, buffer, headers) {
      if (err && !errcode(err)) return client.emit('error', err);
      headers = headers || {};
      headers = setEx(key, err, buffer, headers, ttl, stale);
  });
  // Cache miss, error, or otherwise no data
  get.call(source, url, function(err, buffer, headers) {
      if (err && !errcode(err)) return callback(err);
      headers = headers || {};
      headers = setEx(key, err, buffer, headers, ttl, stale);
      callback(err, buffer, headers);
  });
  \<close>
  \<open>deliver\<close> is true on a miss, where the result goes to the caller's callback, and
  false on the refresh after a stale hit.
\<close>

definition on_fetched :: "platform \<Rightarrow> world \<Rightarrow> string \<Rightarrow> int \<Rightarrow> int \<Rightarrow> bool \<Rightarrow> event list \<times> heap" where
  "on_fetched P w k ttl stale deliver =
    (case source_reply w of
       (er, buf, hdrs) \<Rightarrow>
         if er \<noteq> None \<and> errcode er = None then
           (case er of
              Some e \<Rightarrow>
                (if deliver then [Callback er BUndef HUndef] else [ClientEmit ''error'' e], heap0 w)
            | None \<Rightarrow> ([], heap0 w))
         else
           (let (r, s1) = (case hdrs of Some r \<Rightarrow> (r, heap0 w) | None \<Rightarrow> alloc [] (heap0 w))
            in case setEx P (now_exp w) (now_sec w) k er buf r ttl stale s1 of
                 ((evs, Some x), s2) \<Rightarrow> (evs @ [Uncaught x], s2)
               | ((evs, None), s2) \<Rightarrow>
                   (evs @ (if deliver then [Callback er (BPayload buf) (HRef r)] else [])
                        @ (if evs = [] then [] else set_callback k (set_reply w)), s2)))"

fun cb_headers :: "json option \<Rightarrow> hval" where
  "cb_headers None = HUndef"
| "cb_headers (Some h) = HVal h"

fun cb_buffer :: "dpayload option \<Rightarrow> cbuf" where
  "cb_buffer None = BUndef"
| "cb_buffer (Some b) = BDecoded b"

text \<open>
  The function that \<^verbatim>\<open>cachingGet\<close> returns, applied to \<open>url\<close>, with the resolved
  \<open>ttl\<close> and \<open>stale\<close>:
  \<^verbatim>\<open>
  var key = namespace + '-' + url;
  client.get(key, function(err, encoded) {
      // If error on get, pass through to original source
      // without attempting a set after retrieval.
      if (err) {
          err.key = key;
          client.error(err);
          return get.call(source,url, callback);
      }
      // Cache hit.
      var data;
      if (encoded) try {
          data = decode(encoded);
      } catch(e) {
          e.key = key;
          client.error(e);
      }
      if (data) {
          callback(data.err, data.buffer, data.headers);
          if (isFresh(data)) return;
          get.call(source, url, ...);               // the refresh above
      } else {
          get.call(source, url, ...);               // the miss above
      }
  });
  \<close>
  On the first path the underlying fetch is given the caller's callback itself, so the
  caller receives whatever the fetch yields.
\<close>

definition cachingGet_request ::
  "platform \<Rightarrow> string \<Rightarrow> int \<Rightarrow> int \<Rightarrow> world \<Rightarrow> string \<Rightarrow> event list \<times> heap" where
  "cachingGet_request P namespace ttl stale w url =
    (let k = namespace @ ''-'' @ url in
     case store_reply w of
       (Some e, encoded) \<Rightarrow>
         (case source_reply w of
            (er, buf, hdrs) \<Rightarrow>
              ([ClientGet k, ClientError (ErrObj (e\<lparr>key := Some k\<rparr>)), SourceGet url,
                Callback er (BPayload buf) (case hdrs of None \<Rightarrow> HUndef | Some r \<Rightarrow> HRef r)],
               heap0 w))
     | (None, encoded) \<Rightarrow>
         (let (evs1, data) =
                (case encoded of
                   None \<Rightarrow> ([], None)
                 | Some b \<Rightarrow>
                     (case decode b of
                        Inl x \<Rightarrow> ([ClientError (Thrown x k)], None)
                      | Inr d \<Rightarrow> ([], Some d)))
          in case data of
               Some d \<Rightarrow>
                 (let hit = ClientGet k # evs1
                              @ [Callback (err d) (cb_buffer (buffer d)) (cb_headers (headers d))]
                  in case isFresh P (now_fresh w) d of
                       Inl x \<Rightarrow> (hit @ [Uncaught x], heap0 w)
                     | Inr True \<Rightarrow> (hit, heap0 w)
                     | Inr False \<Rightarrow>
                         (case on_fetched P w k ttl stale False of
                            (evs, s) \<Rightarrow> (hit @ SourceGet url # evs, s)))
             | None \<Rightarrow>
                 (case on_fetched P w k ttl stale True of
                    (evs, s) \<Rightarrow> (ClientGet k # evs1 @ SourceGet url # evs, s))))"

text \<open>
  \<^verbatim>\<open>cachingGet(namespace, options, get)\<close>, the checks and defaults made before the
  request function is returned:
  \<^verbatim>\<open>
  if (!get) throw new Error('No get function provided');
  if (!namespace) throw new Error('No namespace provided');
  options = options || {};
  options.stale = typeof options.stale === 'number' ? options.stale : 300;
  options.ttl = typeof options.ttl === 'number' ? options.ttl : 300;
  if (!options.client) throw new Error('No cache client');
  if (!options.stale) throw new Error('No stale option set');
  if (!options.ttl) throw new Error('No ttl option set');
  \<close>
  \<open>ttl\<close> and \<open>stale\<close> are whole seconds.
\<close>

datatype config_error = NoGet | NoNamespace | NoClient | NoStale | NoTtl

record options =
  client :: bool
  stale :: "int option"
  ttl :: "int option"

definition cachingGet ::
  "platform \<Rightarrow> string \<Rightarrow> options option \<Rightarrow> bool
     \<Rightarrow> config_error + (world \<Rightarrow> string \<Rightarrow> event list \<times> heap)" where
  "cachingGet P namespace opts get =
    (if \<not> get then Inl NoGet
     else if namespace = [] then Inl NoNamespace
     else
       (let opt = (case opts of
                     None \<Rightarrow> \<lparr>client = False, stale = None, ttl = None\<rparr>
                   | Some given \<Rightarrow> given);
            st = (case stale opt of Some n \<Rightarrow> n | None \<Rightarrow> 300);
            tl = (case ttl opt of Some n \<Rightarrow> n | None \<Rightarrow> 300)
        in if \<not> client opt then Inl NoClient
           else if st = 0 then Inl NoStale
           else if tl = 0 then Inl NoTtl
           else Inr (cachingGet_request P namespace tl st)))"

text \<open>The events that do not reach the caller: calls on the store client and an
  exception that escapes the turn.\<close>

definition background_event :: "event \<Rightarrow> bool" where
  "background_event e =
    (case e of
       ClientSet k t v \<Rightarrow> True
     | ClientError x \<Rightarrow> True
     | ClientEmit n x \<Rightarrow> True
     | Uncaught x \<Rightarrow> True
     | _ \<Rightarrow> False)"


section \<open>A reference Date for concrete runs\<close>

text \<open>
  The date format of \<^verbatim>\<open>toUTCString\<close>, \<^verbatim>\<open>Thu, 01 Jan 1970 00:05:00 GMT\<close>, for the years
  0000 to 9999, and a parser of exactly that format. It instantiates the platform where
  a run is evaluated on concrete input.
\<close>

definition pad2 :: "nat \<Rightarrow> string" where
  "pad2 n = [digit_char (n div 10 mod 10), digit_char (n mod 10)]"

definition pad4 :: "nat \<Rightarrow> string" where
  "pad4 n = [digit_char (n div 1000 mod 10), digit_char (n div 100 mod 10),
             digit_char (n div 10 mod 10), digit_char (n mod 10)]"

definition day_names :: "string list" where
  "day_names = [''Sun'', ''Mon'', ''Tue'', ''Wed'', ''Thu'', ''Fri'', ''Sat'']"

definition month_names :: "string list" where
  "month_names = [''Jan'', ''Feb'', ''Mar'', ''Apr'', ''May'', ''Jun'',
                  ''Jul'', ''Aug'', ''Sep'', ''Oct'', ''Nov'', ''Dec'']"

definition civil_from_days :: "int \<Rightarrow> int \<times> nat \<times> nat" where
  "civil_from_days days =
    (let z = days + 719468;
         era = z div 146097;
         doe = z - era * 146097;
         yoe = (doe - doe div 1460 + doe div 36524 - doe div 146096) div 365;
         doy = doe - (365 * yoe + yoe div 4 - yoe div 100);
         mp = (5 * doy + 2) div 153;
         d = doy - (153 * mp + 2) div 5 + 1;
         m = (if mp < 10 then mp + 3 else mp - 9)
     in (yoe + era * 400 + (if m \<le> 2 then 1 else 0), nat m, nat d))"

definition days_from_civil :: "int \<Rightarrow> nat \<Rightarrow> nat \<Rightarrow> int" where
  "days_from_civil y m d =
    (let y' = (if m \<le> 2 then y - 1 else y);
         era = y' div 400;
         yoe = y' - era * 400;
         doy = (153 * (if 2 < m then int m - 3 else int m + 9) + 2) div 5 + int d - 1;
         doe = yoe * 365 + yoe div 4 - yoe div 100 + doy
     in era * 146097 + doe - 719468)"

definition utc_string :: "int \<Rightarrow> string" where
  "utc_string t =
    (let days = t div 86400000;
         secs = nat ((t mod 86400000) div 1000)
     in case civil_from_days days of
          (y, m, d) \<Rightarrow>
            if y < 0 \<or> 9999 < y then ''Invalid Date''
            else day_names ! nat ((days + 4) mod 7) @ '', '' @ pad2 d @ '' ''
                 @ month_names ! (m - 1) @ '' '' @ pad4 (nat y) @ '' ''
                 @ pad2 (secs div 3600) @ '':'' @ pad2 (secs div 60 mod 60) @ '':''
                 @ pad2 (secs mod 60) @ '' GMT'')"

fun index_of :: "string \<Rightarrow> string list \<Rightarrow> nat option" where
  "index_of x [] = None"
| "index_of x (y # ys) = (if x = y then Some 0 else map_option Suc (index_of x ys))"

definition utc_parse :: "string \<Rightarrow> int option" where
  "utc_parse s =
    (let dd = take 2 (drop 5 s); mon = take 3 (drop 8 s); yy = take 4 (drop 12 s);
         hh = take 2 (drop 17 s); mm = take 2 (drop 20 s); ss = take 2 (drop 23 s)
     in if length s = 29 \<and> take 2 (drop 3 s) = '', '' \<and> take 1 (drop 7 s) = '' ''
           \<and> take 1 (drop 11 s) = '' '' \<and> take 1 (drop 16 s) = '' ''
           \<and> take 1 (drop 19 s) = '':'' \<and> take 1 (drop 22 s) = '':'' \<and> drop 25 s = '' GMT''
           \<and> list_all is_digit (dd @ yy @ hh @ mm @ ss)
        then
          (case index_of mon month_names of
             None \<Rightarrow> None
           | Some mi \<Rightarrow>
               Some ((days_from_civil (int (nat_of_digits 0 yy)) (Suc mi) (nat_of_digits 0 dd) * 86400
                      + int (nat_of_digits 0 hh) * 3600 + int (nat_of_digits 0 mm) * 60
                      + int (nat_of_digits 0 ss)) * 1000))
        else None)"

definition utc_platform :: platform where
  "utc_platform = \<lparr>Date_parse = utc_parse, toUTCString = utc_string\<rparr>"

section \<open>Descriptions used in the statements\<close>

text \<open>
  The expiration that \<^verbatim>\<open>setEx\<close> stamps on the headers, given the value \<open>ex\<close> of
  \<^verbatim>\<open>headers.Expires || headers.expires\<close>, and the store of objects after the lines
  that rewrite the headers, before \<^verbatim>\<open>encode\<close> is called.
\<close>

definition stamp_value :: "platform \<Rightarrow> int \<Rightarrow> int \<Rightarrow> json option \<Rightarrow> json" where
  "stamp_value P now1 tt ex =
    (case ex of
       Some e \<Rightarrow> if truthy e then e else JStr (toUTCString P (now1 + tt * 1000))
     | None \<Rightarrow> JStr (toUTCString P (now1 + tt * 1000)))"

definition explicit_expires :: "heap \<Rightarrow> ref \<Rightarrow> json option" where
  "explicit_expires s r = js_or (map_of (cells s r) ''Expires'') (map_of (cells s r) ''expires'')"

definition stamp_expires :: "platform \<Rightarrow> int \<Rightarrow> ref \<Rightarrow> int \<Rightarrow> heap \<Rightarrow> heap" where
  "stamp_expires P now1 r tt s =
    (let x = stamp_value P now1 tt (explicit_expires s r);
         s1 = heap_delete r ''expires'' (heap_delete r ''Expires'' s)
     in if truthy_opt (explicit_expires s r)
        then heap_set r ''x-tl-expires'' x (heap_set r ''expires'' x s1)
        else heap_set r ''x-tl-expires'' x s1)"

text \<open>
  The header block of a cache value: the header text, right-padded with spaces to 1024
  bytes. The bytes \<^verbatim>\<open>encode\<close> appends for a payload it accepts, the headers it
  serialises for that payload, and the payload \<^verbatim>\<open>decode\<close> is to give back.
\<close>

definition pad_to_1024 :: "string \<Rightarrow> string" where
  "pad_to_1024 hs = hs @ replicate (1024 - length hs) CHR '' ''"

fun payload_bytes :: "payload \<Rightarrow> string option" where
  "payload_bytes PAbsent = None"
| "payload_bytes (PStr t) = (if t = [] then None else Some t)"
| "payload_bytes (PBuf b) = Some b"
| "payload_bytes (PArr xs) = Some (JSON_stringify (JArr xs))"
| "payload_bytes (PDict kvs) = Some (JSON_stringify (JObj kvs))"

fun structured :: "payload \<Rightarrow> json option" where
  "structured (PArr xs) = Some (JArr xs)"
| "structured (PDict kvs) = Some (JObj kvs)"
| "structured p = None"

definition stored_headers :: "payload \<Rightarrow> (string \<times> json) list \<Rightarrow> (string \<times> json) list" where
  "stored_headers buf h =
    (if structured buf = None then h else obj_set h ''x-tl-json'' (JBool True))"

definition decoded_payload :: "payload \<Rightarrow> string \<Rightarrow> dpayload" where
  "decoded_payload buf b = (case structured buf of Some j \<Rightarrow> DJson j | None \<Rightarrow> DBuf b)"

section \<open>Concrete inputs\<close>

text \<open>The store of objects before any header object is allocated, and one that holds
  the given object at every reference.\<close>

definition empty_heap :: heap where
  "empty_heap = \<lparr>cells = (\<lambda>r. []), nxt = 0\<rparr>"

definition heap_of :: "(string \<times> json) list \<Rightarrow> heap" where
  "heap_of obj = \<lparr>cells = (\<lambda>r. obj), nxt = 1\<rparr>"

definition not_found :: js_error where
  "not_found = \<lparr>statusCode = Some 404, tlcache = False, key = None\<rparr>"

text \<open>A world whose store holds the cached sentinel of a 404, and one whose store holds
  an entry that expired at second 1 and whose upstream then fails with a 500.\<close>

definition base_world :: world where
  "base_world =
     \<lparr>store_reply = (None, None), source_reply = (None, PStr ''hello'', Some 0),
      set_reply = None, now_fresh = 5000, now_exp = 5000, now_sec = 5000,
      heap0 = heap_of []\<rparr>"

definition sentinel_world :: world where
  "sentinel_world = base_world\<lparr>store_reply := (None, Some ''404'')\<rparr>"

definition server_error :: js_error where
  "server_error = \<lparr>statusCode = Some 500, tlcache = False, key = None\<rparr>"

definition expired_headers :: "(string \<times> json) list" where
  "expired_headers = [(''x-tl-expires'', JStr ''Thu, 01 Jan 1970 00:00:01 GMT'')]"

definition expired_value :: string where
  "expired_value = pad_to_1024 (JSON_stringify (JObj expired_headers)) @ ''hi''"

definition stale_world :: world where
  "stale_world =
     base_world\<lparr>store_reply := (None, Some expired_value),
                 source_reply := (Some server_error, PAbsent, None)\<rparr>"

text \<open>A cache value as \<^verbatim>\<open>encode\<close> writes it for the payload \<^verbatim>\<open>{"a":1}\<close>, 7 bytes of JSON
  text, under headers that declare a content length of 7.\<close>

definition json_headers :: "(string \<times> json) list" where
  "json_headers = [(''content-length'', JNum 7)]"

definition json_value :: string where
  "json_value =
     pad_to_1024 (JSON_stringify (JObj [(''content-length'', JNum 7), (''x-tl-json'', JBool True)]))
     @ JSON_stringify (JObj [(''a'', JNum 1)])"

definition fresh_text :: string where
  "fresh_text = JSON_stringify (JObj [(''x-tl-expires'', JStr ''Thu, 01 Jan 1970 00:05:00 GMT'')])"

text \<open>Headers that carry an explicit expiration, five minutes after the epoch.\<close>

definition expiring_headers :: "(string \<times> json) list" where
  "expiring_headers = [(''Expires'', JStr ''Thu, 01 Jan 1970 00:05:00 GMT'')]"

text \<open>A miss whose upstream answers with the object \<^verbatim>\<open>{"a":1}\<close> under those headers.\<close>

definition miss_world :: world where
  "miss_world =
     base_world\<lparr>source_reply := (None, PDict [(''a'', JNum 1)], Some 0),
                 heap0 := heap_of expiring_headers\<rparr>"

text \<open>Headers whose JSON text has 1020 bytes, headers that use the reserved name
  \<^verbatim>\<open>x-tl-json\<close>, and the headers of two ordinary responses.\<close>

definition big_headers :: "(string \<times> json) list" where
  "big_headers = [(''a'', JStr (replicate 1012 CHR ''x''))]"

definition flagged_headers :: "(string \<times> json) list" where
  "flagged_headers = [(''x-tl-json'', JStr ''yes'')]"

definition etag_headers :: "(string \<times> json) list" where
  "etag_headers = [(''etag'', JStr ''abc'')]"

definition text_headers :: "(string \<times> json) list" where
  "text_headers = [(''content-length'', JStr ''5'')]"

section \<open>Parsing what \<^verbatim>\<open>JSON.stringify\<close> writes\<close>

lemma hex_val_digit: "d < 16 \<Longrightarrow> hex_val (hex_digit d) = Some d"
  by (simp add: hex_val_def hex_digit_def Let_def)

lemma hex4_ctl: "n < 32 \<Longrightarrow> hex4 CHR ''0'' CHR ''0'' (hex_digit (n div 16)) (hex_digit (n mod 16)) = Some n"
proof -
  assume n: "n < 32"
  have z: "hex_val CHR ''0'' = Some 0" by (simp add: hex_val_def)
  have a: "hex_val (hex_digit (n div 16)) = Some (n div 16)" using n by (intro hex_val_digit) simp
  have b: "hex_val (hex_digit (n mod 16)) = Some (n mod 16)" by (intro hex_val_digit) simp
  show ?thesis by (simp add: hex4_def z a b)
qed

lemma utf8_ascii: "of_char c < (128::nat) \<Longrightarrow> utf8 (of_char c) = [c]"
  by (simp add: utf8_def)

lemma char_eqI: "(of_char c :: nat) = of_char d \<Longrightarrow> c = d"
  by simp

lemma parse_chars_esc_step:
  "parse_chars (esc c @ r) = map_option (apfst ((#) c)) (parse_chars r)"
proof -
  define n where "n = (of_char c :: nat)"
  consider "n = 0x22" | "n = 0x5C" | "n = 8" | "n = 12" | "n = 10" | "n = 13" | "n = 9"
    | "n < 32" "n \<noteq> 8" "n \<noteq> 12" "n \<noteq> 10" "n \<noteq> 13" "n \<noteq> 9"
    | "n \<ge> 32" "n \<noteq> 0x22" "n \<noteq> 0x5C"
    by linarith
  then show ?thesis
  proof cases
    case 1
    then have "c = CHR 0x22" unfolding n_def by (intro char_eqI) simp
    then show ?thesis by (simp add: esc_def unescape_def)
  next
    case 2
    then have "c = CHR 0x5C" unfolding n_def by (intro char_eqI) simp
    then show ?thesis by (simp add: esc_def unescape_def)
  next
    case 3
    then have "c = CHR 0x08" unfolding n_def by (intro char_eqI) simp
    then show ?thesis by (simp add: esc_def unescape_def)
  next
    case 4
    then have "c = CHR 0x0C" unfolding n_def by (intro char_eqI) simp
    then show ?thesis by (simp add: esc_def unescape_def)
  next
    case 5
    then have "c = CHR 0x0A" unfolding n_def by (intro char_eqI) simp
    then show ?thesis by (simp add: esc_def unescape_def)
  next
    case 6
    then have "c = CHR 0x0D" unfolding n_def by (intro char_eqI) simp
    then show ?thesis by (simp add: esc_def unescape_def)
  next
    case 7
    then have "c = CHR 0x09" unfolding n_def by (intro char_eqI) simp
    then show ?thesis by (simp add: esc_def unescape_def)
  next
    case 8
    then have e: "esc c = [CHR 0x5C, CHR ''u'', CHR ''0'', CHR ''0'', hex_digit (n div 16), hex_digit (n mod 16)]"
      unfolding n_def by (simp add: esc_def Let_def)
    have u: "utf8 n = [c]" unfolding n_def using 8(1) by (simp add: utf8_def n_def)
    have a: "((@) [c]) = ((#) c)" by (rule ext) simp
    show ?thesis using 8(1) by (simp add: e hex4_ctl u a)
  next
    case 9
    then have e: "esc c = [c]" unfolding n_def by (simp add: esc_def Let_def)
    have "c \<noteq> CHR 0x22" "c \<noteq> CHR 0x5C" using 9 unfolding n_def by auto
    then show ?thesis using 9(1) unfolding n_def by (simp add: e)
  qed
qed

lemma parse_chars_quote:
  "parse_chars (concat (map esc s) @ CHR 0x22 # rest) = Some (s, rest)"
  by (induction s) (simp_all add: parse_chars_esc_step)

lemma digit_val_char: "d < 10 \<Longrightarrow> digit_val (digit_char d) = d"
  by (simp add: digit_val_def digit_char_def)

lemma is_digit_char: "d < 10 \<Longrightarrow> is_digit (digit_char d)"
  by (simp add: is_digit_def digit_char_def)

lemma digit_char_zero: "d < 10 \<Longrightarrow> digit_char d = CHR ''0'' \<Longrightarrow> d = 0"
proof -
  assume d: "d < 10" and e: "digit_char d = CHR ''0''"
  have "(of_char (digit_char d) :: nat) = of_char CHR ''0''" using e by simp
  then show "d = 0" using d by (simp add: digit_char_def)
qed

lemma digit_char_not_minus: "d < 10 \<Longrightarrow> digit_char d \<noteq> CHR ''-''"
proof
  assume d: "d < 10" and e: "digit_char d = CHR ''-''"
  have "(of_char (digit_char d) :: nat) = of_char CHR ''-''" using e by simp
  then show False using d by (simp add: digit_char_def)
qed

lemma dec_nat_ne: "dec_nat n \<noteq> []"
  by (subst dec_nat.simps) simp

lemma dec_nat_digits: "c \<in> set (dec_nat n) \<Longrightarrow> is_digit c"
proof (induction n rule: dec_nat.induct)
  case (1 n)
  show ?case
  proof (cases "n < 10")
    case True
    with "1.prems" show ?thesis by (subst (asm) dec_nat.simps) (simp add: is_digit_char)
  next
    case False
    with "1.prems" have "c \<in> set (dec_nat (n div 10)) \<or> c = digit_char (n mod 10)"
      by (subst (asm) dec_nat.simps) auto
    then show ?thesis using "1.IH" False by (auto simp: is_digit_char)
  qed
qed

lemma nat_of_digits_append:
  "nat_of_digits a (xs @ ys) = nat_of_digits (nat_of_digits a xs) ys"
  by (induction xs arbitrary: a) simp_all

lemma nat_of_digits_dec: "nat_of_digits 0 (dec_nat n) = n"
proof (induction n rule: dec_nat.induct)
  case (1 n)
  show ?case
  proof (cases "n < 10")
    case True
    then show ?thesis by (subst dec_nat.simps) (simp add: digit_val_char)
  next
    case False
    then have "nat_of_digits 0 (dec_nat n) = 10 * (n div 10) + n mod 10"
      using "1.IH" by (subst dec_nat.simps) (simp add: nat_of_digits_append digit_val_char)
    then show ?thesis by simp
  qed
qed

lemma hd_dec_nat_zero: "hd (dec_nat n) = CHR ''0'' \<Longrightarrow> n = 0"
proof (induction n rule: dec_nat.induct)
  case (1 n)
  show ?case
  proof (cases "n < 10")
    case True
    with "1.prems" show ?thesis
      by (subst (asm) dec_nat.simps) (simp add: digit_char_zero)
  next
    case False
    with "1.prems" have "hd (dec_nat (n div 10)) = CHR ''0''"
      by (subst (asm) dec_nat.simps) (simp add: dec_nat_ne)
    with "1.IH" False have "n div 10 = 0" by simp
    with False show ?thesis by simp
  qed
qed

lemma digit_char_0: "digit_char 0 = CHR ''0''"
  by (rule char_eqI) (simp add: digit_char_def)

lemma dec_nat_zero: "dec_nat 0 = ''0''"
  by (subst dec_nat.simps) (simp add: digit_char_0)

lemma hd_dec_nat_digit: "is_digit (hd (dec_nat n))"
  using dec_nat_digits [of "hd (dec_nat n)" n] dec_nat_ne [of n] by simp

lemma takeWhile_dec_nat:
  "follow_ok r \<Longrightarrow> takeWhile is_digit (dec_nat n @ r) = dec_nat n"
  by (cases r) (auto simp: follow_ok_def dec_nat_digits)

lemma dropWhile_dec_nat:
  "follow_ok r \<Longrightarrow> dropWhile is_digit (dec_nat n @ r) = r"
  by (cases r) (auto simp: follow_ok_def dec_nat_digits)

lemma parse_number_nat:
  assumes "follow_ok r"
  shows "parse_number (dec_nat n @ r) = Some (JNum (int n), r)"
proof -
  have h: "hd (dec_nat n @ r) \<noteq> CHR ''-''"
    using hd_dec_nat_digit [of n] dec_nat_ne [of n] by (auto simp: is_digit_def)
  have z: "\<not> (1 < length (dec_nat n) \<and> hd (dec_nat n) = CHR ''0'')"
    using hd_dec_nat_zero [of n] dec_nat_zero by auto
  have f: "\<not> (r \<noteq> [] \<and> (hd r = CHR ''.'' \<or> hd r = CHR ''e'' \<or> hd r = CHR ''E''))"
    using assms by (auto simp: follow_ok_def)
  show ?thesis
    using h z f
    by (simp add: parse_number_def Let_def takeWhile_dec_nat [OF assms]
        dropWhile_dec_nat [OF assms] dec_nat_ne nat_of_digits_dec)
qed

lemma parse_number_neg:
  assumes "follow_ok r"
  shows "parse_number (CHR ''-'' # dec_nat n @ r) = Some (JNum (- int n), r)"
proof -
  have z: "\<not> (1 < length (dec_nat n) \<and> hd (dec_nat n) = CHR ''0'')"
    using hd_dec_nat_zero [of n] dec_nat_zero by auto
  have f: "\<not> (r \<noteq> [] \<and> (hd r = CHR ''.'' \<or> hd r = CHR ''e'' \<or> hd r = CHR ''E''))"
    using assms by (auto simp: follow_ok_def)
  show ?thesis
    using z f
    by (simp add: parse_number_def Let_def takeWhile_dec_nat [OF assms]
        dropWhile_dec_nat [OF assms] dec_nat_ne nat_of_digits_dec)
qed

lemma parse_number_dec_int:
  "follow_ok r \<Longrightarrow> parse_number (dec_int i @ r) = Some (JNum i, r)"
  by (cases "i < 0") (simp_all add: dec_int_def parse_number_nat parse_number_neg)

lemma skip_ws_nows: "\<not> is_ws c \<Longrightarrow> skip_ws (c # cs) = c # cs"
  by (simp add: skip_ws_def)

lemma digit_not_special:
  "is_digit c \<Longrightarrow> \<not> is_ws c \<and> c \<noteq> CHR ''{'' \<and> c \<noteq> CHR ''['' \<and> c \<noteq> CHR '']'' \<and> c \<noteq> CHR ''}''
     \<and> c \<noteq> CHR 0x22 \<and> c \<noteq> CHR ''n'' \<and> c \<noteq> CHR ''t'' \<and> c \<noteq> CHR ''f'' \<and> c \<noteq> CHR ''-''"
  by (auto simp: is_digit_def is_ws_def)

lemma parse_value_dispatch_num:
  assumes "\<not> is_ws c" "c \<noteq> CHR ''{''" "c \<noteq> CHR ''[''" "c \<noteq> CHR 0x22"
    "c \<noteq> CHR ''n''" "c \<noteq> CHR ''t''" "c \<noteq> CHR ''f''"
  shows "parse_value (Suc f) (c # cs) = parse_number (c # cs)"
  apply (subst parse_value.simps)
  apply (simp only: skip_ws_nows [OF assms(1)] list.case)
  using assms(2-)
  apply simp
  done

lemma num_head_not_special:
  "num_head c \<Longrightarrow> \<not> is_ws c \<and> c \<noteq> CHR ''{'' \<and> c \<noteq> CHR ''['' \<and> c \<noteq> CHR '']'' \<and> c \<noteq> CHR ''}''
     \<and> c \<noteq> CHR 0x22 \<and> c \<noteq> CHR ''n'' \<and> c \<noteq> CHR ''t'' \<and> c \<noteq> CHR ''f''"
  unfolding num_head_def
proof (elim disjE)
  assume "is_digit c"
  then show ?thesis using digit_not_special [of c] by blast
next
  assume "c = CHR ''-''"
  then show ?thesis by (simp add: is_ws_def)
qed

lemma dec_int_head:
  "\<exists>c cs. dec_int i = c # cs \<and> num_head c"
proof (cases "i < 0")
  case True
  then show ?thesis by (simp add: dec_int_def num_head_def)
next
  case False
  obtain c cs where e: "dec_nat (nat i) = c # cs"
    using dec_nat_ne [of "nat i"] by (cases "dec_nat (nat i)") auto
  have "is_digit c" using hd_dec_nat_digit [of "nat i"] e by simp
  then show ?thesis using False e by (simp add: dec_int_def num_head_def)
qed

lemma parse_value_num:
  assumes "follow_ok r"
  shows "parse_value (Suc f) (dec_int i @ r) = Some (JNum i, r)"
proof -
  obtain c cs where e: "dec_int i = c # cs" and c: "num_head c"
    using dec_int_head by blast
  have p: "parse_number (c # cs @ r) = Some (JNum i, r)"
    using parse_number_dec_int [OF assms, of i] e by simp
  have "parse_value (Suc f) (c # cs @ r) = parse_number (c # cs @ r)"
    using num_head_not_special [OF c] by (intro parse_value_dispatch_num) simp_all
  then show ?thesis
    using p by (simp add: e)
qed

lemma stringify_head:
  "\<exists>c cs. JSON_stringify v = c # cs \<and> \<not> is_ws c \<and> c \<noteq> CHR '']'' \<and> c \<noteq> CHR ''}''"
proof (cases v)
  case (JNum i)
  obtain c cs where e: "dec_int i = c # cs" and c: "num_head c"
    using dec_int_head by blast
  have "\<not> is_ws c \<and> c \<noteq> CHR '']'' \<and> c \<noteq> CHR ''}''"
    using num_head_not_special [OF c] by blast
  then show ?thesis using JNum e by simp
qed (auto simp: is_ws_def quote_def)

lemma follow_ok_simps [simp]:
  "follow_ok []" "follow_ok (CHR '','' # r)" "follow_ok (CHR '']'' # r)" "follow_ok (CHR ''}'' # r)"
  "follow_ok (CHR '' '' # r)"
  by (simp_all add: follow_ok_def is_digit_def)

lemma parse_elems_join:
  assumes "\<And>x f r. x \<in> set xs \<Longrightarrow> fuel_need x \<le> f \<Longrightarrow> follow_ok r
             \<Longrightarrow> parse_value f (JSON_stringify x @ r) = Some (x, r)"
    and "xs \<noteq> []"
    and "sum_list (map (\<lambda>x. Suc (fuel_need x)) xs) \<le> f"
  shows "parse_elems f (join_commas (map JSON_stringify xs) @ CHR '']'' # r) = Some (xs, r)"
  using assms
proof (induction xs arbitrary: f)
  case Nil
  then show ?case by simp
next
  case (Cons x xs)
  from Cons.prems(3) obtain f' where f: "f = Suc f'" by (cases f) auto
  have fx: "fuel_need x \<le> f'" using Cons.prems(3) f by simp
  show ?case
  proof (cases xs)
    case Nil
    have "parse_value f' (JSON_stringify x @ CHR '']'' # r) = Some (x, CHR '']'' # r)"
      using Cons.prems(1) [of x f' "CHR '']'' # r"] fx by simp
    then show ?thesis using Nil f by (simp add: skip_ws_nows is_ws_def)
  next
    case (Cons y ys)
    have rest: "parse_elems f' (join_commas (map JSON_stringify xs) @ CHR '']'' # r) = Some (xs, r)"
      using Cons.IH [of f'] Cons.prems Cons f by simp
    have "parse_value f' (JSON_stringify x @ CHR '','' # join_commas (map JSON_stringify xs) @ CHR '']'' # r)
            = Some (x, CHR '','' # join_commas (map JSON_stringify xs) @ CHR '']'' # r)"
      using Cons.prems(1) [of x f'] fx by simp
    then show ?thesis using Cons f rest by (simp add: skip_ws_nows is_ws_def)
  qed
qed

lemma parse_members_step:
  assumes "parse_value f (JSON_stringify v @ c # t) = Some (v, c # t)"
    and "c = CHR '','' \<or> c = CHR ''}''"
  shows "parse_members (Suc f) (quote k @ CHR '':'' # JSON_stringify v @ c # t)
           = (if c = CHR '','' then map_option (apfst ((#) (k, v))) (parse_members f t)
              else Some ([(k, v)], t))"
proof -
  have q: "parse_chars (concat (map esc k) @ CHR 0x22 # CHR '':'' # JSON_stringify v @ c # t)
             = Some (k, CHR '':'' # JSON_stringify v @ c # t)"
    by (rule parse_chars_quote)
  have w: "\<not> is_ws c" using assms(2) by (auto simp: is_ws_def)
  show ?thesis
    apply (subst parse_members.simps)
    apply (simp only: quote_def append_Cons append_Nil append_assoc skip_ws_nows is_ws_def)
    using assms q w
    apply (auto simp: skip_ws_nows is_ws_def)
    done
qed

lemma parse_members_join:
  assumes "\<And>k v f r. (k, v) \<in> set kvs \<Longrightarrow> fuel_need v \<le> f \<Longrightarrow> follow_ok r
             \<Longrightarrow> parse_value f (JSON_stringify v @ r) = Some (v, r)"
    and "kvs \<noteq> []"
    and "sum_list (map (\<lambda>(k, v). Suc (fuel_need v)) kvs) \<le> f"
  shows "parse_members f (join_commas (map member_str kvs) @ CHR ''}'' # r) = Some (kvs, r)"
  using assms
proof (induction kvs arbitrary: f)
  case Nil
  then show ?case by simp
next
  case (Cons p kvs)
  obtain k v where p: "p = (k, v)" by (cases p)
  from Cons.prems(3) obtain f' where f: "f = Suc f'" unfolding p by (cases f) auto
  have fx: "fuel_need v \<le> f'" using Cons.prems(3) f p by simp
  show ?case
  proof (cases kvs)
    case Nil
    have "parse_value f' (JSON_stringify v @ CHR ''}'' # r) = Some (v, CHR ''}'' # r)"
      using Cons.prems(1) [of k v f' "CHR ''}'' # r"] fx p by simp
    from parse_members_step [OF this, of k] show ?thesis using Nil f p by simp
  next
    case (Cons q qs)
    have rest: "parse_members f' (join_commas (map member_str kvs) @ CHR ''}'' # r) = Some (kvs, r)"
    proof (rule Cons.IH)
      show "kvs \<noteq> []" using Cons by simp
      show "(\<Sum>(k, v)\<leftarrow>kvs. Suc (fuel_need v)) \<le> f'"
        using Cons.prems(3) f p by simp
      fix k v f r
      assume a: "(k, v) \<in> set kvs" "fuel_need v \<le> f" "follow_ok r"
      show "parse_value f (JSON_stringify v @ r) = Some (v, r)"
        using Cons.prems(1) [of k v f r] a by simp
    qed
    have "parse_value f' (JSON_stringify v @ CHR '','' # join_commas (map member_str kvs) @ CHR ''}'' # r)
            = Some (v, CHR '','' # join_commas (map member_str kvs) @ CHR ''}'' # r)"
      using Cons.prems(1) [of k v f'] fx p by simp
    from parse_members_step [OF this, of k] show ?thesis using Cons f p rest by simp
  qed
qed

lemma obj_of_members_aux:
  "distinct (map fst (acc @ ms)) \<Longrightarrow> foldl (\<lambda>kvs (k, v). obj_set kvs k v) acc ms = acc @ ms"
proof (induction ms arbitrary: acc)
  case Nil
  then show ?case by simp
next
  case (Cons p ms)
  obtain k v where p: "p = (k, v)" by (cases p)
  have "k \<notin> fst ` set acc" using Cons.prems p by auto
  then have u: "obj_set acc k v = acc @ [(k, v)]"
    by (induction acc) (auto simp: obj_set_def)
  have "distinct (map fst ((acc @ [(k, v)]) @ ms))" using Cons.prems p by simp
  from Cons.IH [OF this] show ?case using u p by simp
qed

lemma obj_of_members_distinct: "distinct (map fst ms) \<Longrightarrow> obj_of_members ms = ms"
  using obj_of_members_aux [of "[]" ms] by (simp add: obj_of_members_def)

lemma join_head:
  assumes "xs \<noteq> []" "\<exists>c cs. hd xs = c # cs \<and> P c"
  shows "\<exists>c cs. join_commas xs @ r = c # cs \<and> P c"
proof (cases xs)
  case Nil
  with assms show ?thesis by simp
next
  case (Cons x ys)
  then show ?thesis using assms by (cases ys) auto
qed

lemma parse_value_stringify:
  "wf_json v \<Longrightarrow> fuel_need v \<le> f \<Longrightarrow> follow_ok r
     \<Longrightarrow> parse_value f (JSON_stringify v @ r) = Some (v, r)"
proof (induction v arbitrary: f r)
  case JNull
  then obtain f' where "f = Suc f'" by (cases f) auto
  then show ?case by (simp add: skip_ws_nows is_ws_def)
next
  case (JBool b)
  then obtain f' where "f = Suc f'" by (cases f) auto
  then show ?case by (simp add: skip_ws_nows is_ws_def)
next
  case (JNum i)
  then obtain f' where "f = Suc f'" by (cases f) auto
  then show ?case using parse_value_num [OF JNum.prems(3)] by simp
next
  case (JStr s)
  then obtain f' where "f = Suc f'" by (cases f) auto
  then show ?case by (simp add: skip_ws_nows is_ws_def quote_def parse_chars_quote)
next
  case (JArr xs)
  then obtain f' where f: "f = Suc f'" by (cases f) auto
  show ?case
  proof (cases "xs = []")
    case True
    then show ?thesis using f by (simp add: skip_ws_nows is_ws_def)
  next
    case False
    have ih: "\<And>x f r. x \<in> set xs \<Longrightarrow> fuel_need x \<le> f \<Longrightarrow> follow_ok r
               \<Longrightarrow> parse_value f (JSON_stringify x @ r) = Some (x, r)"
      using JArr.IH JArr.prems(1) by (simp add: list_all_iff)
    have e: "parse_elems f' (join_commas (map JSON_stringify xs) @ CHR '']'' # r) = Some (xs, r)"
      using JArr.prems(2) f by (intro parse_elems_join ih False) simp_all
    have "\<exists>c cs. hd (map JSON_stringify xs) = c # cs \<and> (\<not> is_ws c \<and> c \<noteq> CHR '']'')"
      using False stringify_head [of "hd xs"] by (auto simp: hd_map)
    from join_head [OF _ this, of "CHR '']'' # r"] False
    obtain c cs where h: "join_commas (map JSON_stringify xs) @ CHR '']'' # r = c # cs"
      and c: "\<not> is_ws c" "c \<noteq> CHR '']''" by auto
    show ?thesis
      apply (simp only: f JSON_stringify.simps append_Cons append_Nil append_assoc)
      apply (subst parse_value.simps)
      apply (simp add: skip_ws_nows is_ws_def)
      apply (simp only: h)
      using c e h apply (simp add: skip_ws_nows)
      done
  qed
next
  case (JObj kvs)
  then obtain f' where f: "f = Suc f'" by (cases f) auto
  show ?case
  proof (cases "kvs = []")
    case True
    then show ?thesis using f by (simp add: skip_ws_nows is_ws_def)
  next
    case False
    have ih: "\<And>k v f r. (k, v) \<in> set kvs \<Longrightarrow> fuel_need v \<le> f \<Longrightarrow> follow_ok r
               \<Longrightarrow> parse_value f (JSON_stringify v @ r) = Some (v, r)"
      using JObj.IH JObj.prems(1) by (fastforce simp: list_all_iff)
    have d: "obj_of_members kvs = kvs"
      using JObj.prems(1) by (simp add: obj_of_members_distinct)
    have e: "parse_members f' (join_commas (map member_str kvs) @ CHR ''}'' # r) = Some (kvs, r)"
      using JObj.prems(2) f by (intro parse_members_join ih False) simp_all
    have "\<exists>c cs. hd (map member_str kvs) = c # cs \<and> (\<not> is_ws c \<and> c \<noteq> CHR ''}'')"
      using False by (cases kvs) (auto simp: quote_def is_ws_def)
    from join_head [OF _ this, of "CHR ''}'' # r"] False
    obtain c cs where h: "join_commas (map member_str kvs) @ CHR ''}'' # r = c # cs"
      and c: "\<not> is_ws c" "c \<noteq> CHR ''}''" by auto
    show ?thesis
      apply (simp only: f JSON_stringify.simps append_Cons append_Nil append_assoc)
      apply (subst parse_value.simps)
      apply (simp add: skip_ws_nows is_ws_def)
      apply (simp only: h)
      using c e h d apply (simp add: skip_ws_nows)
      done
  qed
qed

section \<open>Objects and the store of objects\<close>

lemma map_of_obj_set [simp]:
  "map_of (obj_set kvs k v) k' = (if k' = k then Some v else map_of kvs k')"
  by (simp add: obj_set_def update_conv')

lemma map_of_obj_delete [simp]:
  "map_of (obj_delete kvs k) k' = (if k' = k then None else map_of kvs k')"
  by (simp add: obj_delete_def delete_conv')

lemma cells_heap_set [simp]:
  "cells (heap_set r k v s) r' = (if r' = r then obj_set (cells s r) k v else cells s r')"
  by (simp add: heap_set_def)

lemma cells_heap_delete [simp]:
  "cells (heap_delete r k s) r' = (if r' = r then obj_delete (cells s r) k else cells s r')"
  by (simp add: heap_delete_def)

lemma nxt_heap_set [simp]: "nxt (heap_set r k v s) = nxt s"
  by (simp add: heap_set_def)

lemma nxt_heap_delete [simp]: "nxt (heap_delete r k s) = nxt s"
  by (simp add: heap_delete_def)

section \<open>The layout of a cache value\<close>

lemma length_join_commas:
  "sum_list (map (\<lambda>y. Suc (length y)) ys) \<le> Suc (length (join_commas ys))"
  by (induction ys rule: join_commas.induct) simp_all

lemma sum_list_Suc_mono:
  assumes "\<And>x. x \<in> set xs \<Longrightarrow> f x \<le> g x"
  shows "sum_list (map (\<lambda>x. Suc (f x)) xs) \<le> sum_list (map (\<lambda>x. Suc (g x)) xs)"
  using assms by (induction xs) (simp_all add: add_mono)

lemma fuel_need_le_length: "fuel_need v \<le> length (JSON_stringify v)"
proof (induction v)
  case (JNum i)
  obtain c cs where "dec_int i = c # cs" using dec_int_head by blast
  then show ?case by simp
next
  case (JStr s)
  then show ?case by (simp add: quote_def)
next
  case (JArr xs)
  have "sum_list (map (\<lambda>x. Suc (fuel_need x)) xs)
          \<le> sum_list (map (\<lambda>x. Suc (length (JSON_stringify x))) xs)"
    using JArr.IH by (intro sum_list_Suc_mono) simp
  also have "\<dots> = sum_list (map (\<lambda>y. Suc (length y)) (map JSON_stringify xs))"
    by (simp add: comp_def)
  also have "\<dots> \<le> Suc (length (join_commas (map JSON_stringify xs)))"
    by (rule length_join_commas)
  finally show ?case by simp
next
  case (JObj kvs)
  have "sum_list (map (\<lambda>p. Suc (fuel_need (snd p))) kvs)
          \<le> sum_list (map (\<lambda>p. Suc (length (member_str p))) kvs)"
  proof (intro sum_list_Suc_mono)
    fix p assume p: "p \<in> set kvs"
    obtain k v where kv: "p = (k, v)" by (cases p)
    have "fuel_need v \<le> length (JSON_stringify v)"
      using JObj.IH [of p v] p kv by simp
    then show "fuel_need (snd p) \<le> length (member_str p)"
      by (simp add: kv)
  qed
  also have "\<dots> = sum_list (map (\<lambda>y. Suc (length y)) (map member_str kvs))"
    by (simp add: comp_def)
  also have "\<dots> \<le> Suc (length (join_commas (map member_str kvs)))"
    by (rule length_join_commas)
  finally have le: "sum_list (map (\<lambda>p. Suc (fuel_need (snd p))) kvs)
                  \<le> Suc (length (join_commas (map member_str kvs)))" .
  have e: "map (\<lambda>(k, v). Suc (fuel_need v)) kvs = map (\<lambda>p. Suc (fuel_need (snd p))) kvs"
    by (simp add: case_prod_beta)
  show ?case using le by (simp add: e)
qed simp_all

lemma JSON_parse_stringify:
  assumes "wf_json v"
  shows "JSON_parse (JSON_stringify v) = Some v"
proof -
  have "fuel_need v \<le> 2 * length (JSON_stringify v) + 1"
    using fuel_need_le_length [of v] by simp
  from parse_value_stringify [OF assms this, of "[]"]
  show ?thesis by (simp add: JSON_parse_def skip_ws_def)
qed

lemma trim_padded:
  assumes "hs = [] \<or> (\<not> is_trim_ws (hd hs) \<and> \<not> is_trim_ws (last hs))"
  shows "trim (hs @ replicate n CHR '' '') = hs"
proof (cases "hs = []")
  case True
  have "dropWhile is_trim_ws (replicate n CHR '' '') = []"
    by (induction n) (simp_all add: is_trim_ws_def)
  then show ?thesis using True by (simp add: trim_def)
next
  case False
  with assms have h: "\<not> is_trim_ws (hd hs)" and l: "\<not> is_trim_ws (last hs)" by auto
  have a: "dropWhile is_trim_ws (hs @ replicate n CHR '' '') = hs @ replicate n CHR '' ''"
    using False h by (cases hs) simp_all
  have b: "dropWhile is_trim_ws (replicate n CHR '' '' @ rev hs) = dropWhile is_trim_ws (rev hs)"
    by (induction n) (simp_all add: is_trim_ws_def)
  have c: "dropWhile is_trim_ws (rev hs) = rev hs"
    using False l by (cases "rev hs") (auto simp: last_rev [symmetric] hd_rev)
  show ?thesis by (simp add: trim_def a b c)
qed

lemma stringify_obj_ends:
  "JSON_stringify (JObj kvs) \<noteq> []"
  "\<not> is_trim_ws (hd (JSON_stringify (JObj kvs)))"
  "\<not> is_trim_ws (last (JSON_stringify (JObj kvs)))"
  by (simp_all add: is_trim_ws_def)

lemma take_padded: "length hs \<le> 1024 \<Longrightarrow> take 1024 (pad_to_1024 hs @ b) = pad_to_1024 hs"
  by (simp add: pad_to_1024_def)

lemma drop_padded: "length hs \<le> 1024 \<Longrightarrow> drop 1024 (pad_to_1024 hs @ b) = b"
  by (simp add: pad_to_1024_def)

lemma length_padded: "length hs \<le> 1024 \<Longrightarrow> length (pad_to_1024 hs @ b) = 1024 + length b"
  by (simp add: pad_to_1024_def)

text \<open>What \<^verbatim>\<open>encode\<close> returns for a result without error.\<close>

lemma encode_layout:
  "encode None buf (Some r) s =
    (let s2 = (if structured buf = None then s else heap_set r ''x-tl-json'' (JBool True) s);
         hs = JSON_stringify (JObj (cells s2 r))
     in (if 1024 < length hs then Inl HeadersExceed
         else (case payload_bytes buf of
                 None \<Rightarrow> Inl TypeError
               | Some b \<Rightarrow> Inr (EncBuf (pad_to_1024 hs @ b))), s2))"
  by (cases buf) (simp_all add: encode_def errcode_def Let_def pad_to_1024_def)

lemma cells_stored_headers:
  "cells (if structured buf = None then s else heap_set r ''x-tl-json'' (JBool True) s) r
     = stored_headers buf (cells s r)"
  by (simp add: stored_headers_def)

text \<open>What \<^verbatim>\<open>decode\<close> does with a header block that holds the text \<open>hs\<close>, when \<open>hs\<close>
  neither starts nor ends with white space.\<close>

lemma decode_padded:
  assumes "length hs \<le> 1024"
    and "hs = [] \<or> (\<not> is_trim_ws (hd hs) \<and> \<not> is_trim_ws (last hs))"
  shows "decode (pad_to_1024 hs @ b) =
    (case JSON_parse hs of
       None \<Rightarrow> Inl InvalidCacheValue
     | Some h0 \<Rightarrow>
         (case prop_set h0 ''x-tl-cache'' (JStr ''hit'') of
            Inl x \<Rightarrow> Inl x
          | Inr h \<Rightarrow>
              (case prop_get h ''x-tl-json'' of
                 Inl x \<Rightarrow> Inl x
               | Inr flag \<Rightarrow>
                   (case (if truthy_opt flag then
                            (case JSON_parse b of
                               None \<Rightarrow> Inl SyntaxError
                             | Some j \<Rightarrow> Inr (DJson j))
                          else Inr (DBuf b)) of
                      Inl x \<Rightarrow> Inl x
                    | Inr p \<Rightarrow>
                        (case prop_get h ''content-length'' of
                           Inl x \<Rightarrow> Inl x
                         | Inr cl \<Rightarrow>
                             (case content_length_check cl p of
                                Inl x \<Rightarrow> Inl x
                              | Inr u \<Rightarrow>
                                  Inr \<lparr>err = None, headers = Some h, buffer = Some p\<rparr>))))))"
proof -
  have n: "\<not> (length (pad_to_1024 hs @ b) = 3
              \<and> (pad_to_1024 hs @ b = ''404'' \<or> pad_to_1024 hs @ b = ''403''))"
    using length_padded [OF assms(1), of b] by simp
  have t: "trim (take 1024 (pad_to_1024 hs @ b)) = hs"
    using trim_padded [OF assms(2)] take_padded [OF assms(1)] by (simp add: pad_to_1024_def)
  show ?thesis
    unfolding decode_def
    by (simp only: n if_False t drop_padded [OF assms(1)])
qed


section \<open>Header sizes and what \<^verbatim>\<open>encode\<close> returns\<close>

lemma encode_no_headers:
  "fst (encode None buf None s) = fst (encode None buf (Some (nxt s)) (snd (alloc [] s)))"
  by (simp add: encode_def errcode_def alloc_def)

lemma cells_alloc: "cells (snd (alloc obj s)) (nxt s) = obj"
  by (simp add: alloc_def)

lemma encode_result:
  assumes "h = (case hdrs of Some r \<Rightarrow> cells s r | None \<Rightarrow> [])"
  shows "fst (encode None buf hdrs s) =
    (if 1024 < length (JSON_stringify (JObj (stored_headers buf h))) then Inl HeadersExceed
     else (case payload_bytes buf of
             None \<Rightarrow> Inl TypeError
           | Some b \<Rightarrow>
               Inr (EncBuf (pad_to_1024 (JSON_stringify (JObj (stored_headers buf h))) @ b))))"
proof (cases hdrs)
  case None
  then have h: "h = []" using assms by simp
  show ?thesis
    unfolding None encode_no_headers encode_layout Let_def fst_conv cells_stored_headers
      cells_alloc h ..
next
  case (Some r)
  then have h: "h = cells s r" using assms by simp
  show ?thesis
    unfolding Some encode_layout Let_def fst_conv cells_stored_headers h ..
qed

lemma encode_heap:
  "snd (encode er buf (Some r) s) = s
   \<or> snd (encode er buf (Some r) s) = heap_set r ''x-tl-json'' (JBool True) s"
proof (cases "errcode er")
  case (Some c)
  then show ?thesis by (simp add: encode_def)
next
  case None
  show ?thesis
  proof (cases er)
    case (Some e)
    then show ?thesis using None by (simp add: encode_def)
  next
    case n: None
    show ?thesis
      by (cases buf) (simp_all add: encode_def errcode_def n Let_def)
  qed
qed


lemma encode_structured_heap:
  assumes "buf = PArr xs \<or> buf = PDict kvs"
  shows "snd (encode None buf (Some r) s) = heap_set r ''x-tl-json'' (JBool True) s"
  using assms by (auto simp: encode_def errcode_def Let_def)

lemma esc_plain: "esc CHR ''x'' = ''x''"
  by (simp add: esc_def)

lemma concat_esc_plain: "concat (map esc (replicate n CHR ''x'')) = replicate n CHR ''x''"
  by (induction n) (simp_all add: esc_plain)

lemma length_big_headers: "length (JSON_stringify (JObj big_headers)) = 1020"
  by (simp add: big_headers_def quote_def concat_esc_plain esc_def)

lemma length_big_stored:
  "length (JSON_stringify (JObj (stored_headers (PDict []) big_headers))) = 1037"
  by (simp add: big_headers_def stored_headers_def obj_set_def quote_def concat_esc_plain esc_def)

lemma flag_overflow:
  "fst (encode None (PDict []) (Some 0) (heap_of big_headers)) = Inl HeadersExceed"
proof -
  have h: "big_headers = (case Some 0 of Some r \<Rightarrow> cells (heap_of big_headers) r | None \<Rightarrow> [])"
    by (simp add: heap_of_def)
  show ?thesis
    unfolding encode_result [OF h] length_big_stored by simp
qed

lemma length_etag_stored:
  "length (JSON_stringify (JObj (stored_headers (PDict [(''a'', JNum 1)]) etag_headers))) = 31"
  by code_simp

section \<open>Values and coercions\<close>

lemma dec_int_404: "dec_int 404 = ''404''"
  by code_simp

lemma dec_int_403: "dec_int 403 = ''403''"
  by code_simp

lemma prop_set_not_null: "prop_set h0 k x = Inr h \<Longrightarrow> h \<noteq> JNull"
  by (cases h0) auto

lemma prop_get_not_null: "h \<noteq> JNull \<Longrightarrow> \<exists>g. prop_get h k = Inr g"
  by (cases h) auto

lemma list_all_update:
  assumes "list_all P kvs" and "P (k, v)"
  shows "list_all P (AList.update k v kvs)"
  using assms by (induction kvs) auto

lemma wf_obj_set:
  assumes "wf_json (JObj h)" and "wf_json v"
  shows "wf_json (JObj (obj_set h k v))"
  using assms by (simp add: obj_set_def distinct_update list_all_update)

lemma wf_stored_headers: "wf_json (JObj h) \<Longrightarrow> wf_json (JObj (stored_headers buf h))"
  using wf_obj_set [of h "JBool True" "''x-tl-json''"] by (simp add: stored_headers_def)

lemma digit_not_trim_ws: "is_digit c \<Longrightarrow> \<not> is_trim_ws c"
  by (auto simp: is_digit_def is_trim_ws_def)

lemma str_to_int_dec_nat: "str_to_int (dec_nat n) = Some (int n)"
proof -
  have ne: "dec_nat n \<noteq> []" by (rule dec_nat_ne)
  have hd: "is_digit (hd (dec_nat n))" by (rule hd_dec_nat_digit)
  have "last (dec_nat n) \<in> set (dec_nat n)" using ne by simp
  then have la: "is_digit (last (dec_nat n))" by (rule dec_nat_digits)
  have "trim (dec_nat n @ replicate 0 CHR '' '') = dec_nat n"
    using hd la by (intro trim_padded) (simp add: digit_not_trim_ws)
  then have t: "trim (dec_nat n) = dec_nat n" by simp
  have s: "hd (dec_nat n) \<noteq> CHR ''-''" "hd (dec_nat n) \<noteq> CHR ''+''"
    using hd by (auto simp: is_digit_def)
  have a: "list_all is_digit (dec_nat n)"
    using dec_nat_digits by (auto simp: list_all_iff)
  show ?thesis
    by (simp add: str_to_int_def Let_def t ne s a nat_of_digits_dec)
qed

lemma declared_length_matches:
  assumes "c = JNum (int n) \<or> c = JStr (dec_int (int n))"
  shows "\<not> loose_neq c (Some (JNum (int n)))"
  using assms
  by (auto simp: loose_neq_def loose_eq_def dec_int_def str_to_int_dec_nat)

section \<open>The steps of \<^verbatim>\<open>setEx\<close>\<close>

lemma stamp_expires_field:
  "map_of (cells (stamp_expires P now1 r tt s) r) ''x-tl-expires''
     = Some (stamp_value P now1 tt (explicit_expires s r))"
  by (simp add: stamp_expires_def Let_def)

lemma stamp_expires_frame:
  "nxt (stamp_expires P now1 r tt s) = nxt s"
  "r' \<noteq> r \<Longrightarrow> cells (stamp_expires P now1 r tt s) r' = cells s r'"
  by (simp_all add: stamp_expires_def Let_def)

lemma stamp_expires_upper:
  "map_of (cells (stamp_expires P now1 r tt s) r) ''Expires'' = None"
  by (simp add: stamp_expires_def Let_def)

lemma stamp_expires_lower:
  "map_of (cells (stamp_expires P now1 r tt s) r) ''expires''
     = (if truthy_opt (explicit_expires s r) then explicit_expires s r else None)"
  by (cases "explicit_expires s r")
     (simp_all add: stamp_expires_def Let_def stamp_value_def truthy_opt_def)

lemma setEx_unfold:
  "setEx P now1 now2 k er buf r tt st s =
    (case js_date P (stamp_value P now1 tt (explicit_expires s r)) of
       None \<Rightarrow> (([], None), stamp_expires P now1 r tt s)
     | Some T \<Rightarrow>
         if 0 < - ((now2 - T) div 1000) then
           (case encode er buf (Some r) (stamp_expires P now1 r tt s) of
              (Inl y, s3) \<Rightarrow> (([], Some y), s3)
            | (Inr v, s3) \<Rightarrow>
                (([ClientSet k (- ((now2 - T) div 1000)
                                 + (if truthy_opt (explicit_expires s r) then 0 else st)) v],
                  None), s3))
         else (([], None), stamp_expires P now1 r tt s))"
proof -
  define ex where "ex = explicit_expires s r"
  define s1 where "s1 = heap_delete r ''expires'' (heap_delete r ''Expires'' s)"
  define x where "x = stamp_value P now1 tt ex"
  define s2 where
    "s2 = (if truthy_opt ex
           then heap_set r ''x-tl-expires'' x (heap_set r ''expires'' x s1)
           else heap_set r ''x-tl-expires'' x s1)"
  have se: "stamp_expires P now1 r tt s = s2"
    by (simp add: stamp_expires_def Let_def ex_def s1_def x_def s2_def)
  have sx: "map_of (cells s2 r) ''x-tl-expires'' = Some x"
    by (simp add: s2_def)
  have xx: "(case ex of
               Some e \<Rightarrow> if truthy e then e else JStr (toUTCString P (now1 + tt * 1000))
             | None \<Rightarrow> JStr (toUTCString P (now1 + tt * 1000))) = x"
    by (simp add: x_def stamp_value_def)
  have exd: "js_or (map_of (cells s r) ''Expires'') (map_of (cells s r) ''expires'') = ex"
    by (simp add: ex_def explicit_expires_def)
  show ?thesis
    unfolding setEx_def Let_def exd xx s1_def [symmetric] s2_def [symmetric] sx se
      ex_def [symmetric] x_def [symmetric]
    by (simp split: option.splits)
qed

lemma setEx_events:
  "fst (fst (setEx P now1 now2 k er buf r tt st s)) = []
   \<or> (\<exists>t v. fst (fst (setEx P now1 now2 k er buf r tt st s)) = [ClientSet k t v])"
  by (simp add: setEx_def Let_def split: option.splits prod.splits sum.splits)

lemma setEx_heap:
  "snd (setEx P now1 now2 k er buf r tt st s) = stamp_expires P now1 r tt s
   \<or> snd (setEx P now1 now2 k er buf r tt st s)
       = heap_set r ''x-tl-json'' (JBool True) (stamp_expires P now1 r tt s)"
  using encode_heap [of er buf r "stamp_expires P now1 r tt s"]
  unfolding setEx_unfold
  by (auto split: option.splits prod.splits sum.splits)

lemma setEx_written:
  assumes "ClientSet k' t v \<in> set (fst (fst (setEx P now1 now2 k er buf r tt st s)))"
  shows "snd (setEx P now1 now2 k er buf r tt st s)
           = snd (encode er buf (Some r) (stamp_expires P now1 r tt s))"
  using assms unfolding setEx_unfold
  by (auto split: option.splits prod.splits sum.splits if_splits)

lemma setEx_result:
  assumes "js_date P (stamp_value P now1 tt (explicit_expires s r)) = Some T"
    and "0 < - ((now2 - T) div 1000)"
    and "fst (encode er buf (Some r) (stamp_expires P now1 r tt s)) = Inr v"
  shows "fst (setEx P now1 now2 k er buf r tt st s)
           = ([ClientSet k (- ((now2 - T) div 1000)
                            + (if truthy_opt (explicit_expires s r) then 0 else st)) v], None)"
  using assms unfolding setEx_unfold by (auto split: prod.splits)


lemma seconds_until_ceiling:
  fixes now t :: int
  shows "1000 * (- ((now - t) div 1000) - 1) < t - now
         \<and> t - now \<le> 1000 * (- ((now - t) div 1000))"
proof -
  define q where "q = (now - t) div 1000"
  define m where "m = (now - t) mod 1000"
  have a: "now - t = 1000 * q + m" by (simp add: q_def m_def)
  have b: "0 \<le> m" "m < 1000" by (simp_all add: m_def)
  have a': "t - now = - (1000 * q) - m" using a by simp
  have c: "1000 * (- q - 1) < t - now" unfolding a' using b by simp
  have d: "t - now \<le> 1000 * (- q)" unfolding a' using b by simp
  from c d show ?thesis by (simp only: q_def)
qed

lemma set_callback_background: "list_all background_event (set_callback k reply)"
  by (simp add: set_callback_def background_event_def split: option.splits)

lemma set_callback_no_event:
  "Callback a b h \<notin> set (set_callback k reply)"
  "ClientSet k' t v \<notin> set (set_callback k reply)"
  "Uncaught x \<notin> set (set_callback k reply)"
  by (simp_all add: set_callback_def split: option.splits)

lemma on_fetched_refresh_events:
  "list_all background_event (fst (on_fetched P w k tt st False))"
proof -
  obtain er buf hdrs where sr: "source_reply w = (er, buf, hdrs)"
    by (cases "source_reply w") auto
  show ?thesis
  proof (cases "er \<noteq> None \<and> errcode er = None")
    case True
    then show ?thesis
      by (auto simp: on_fetched_def sr background_event_def)
  next
    case False
    obtain r s1 where a: "(case hdrs of Some r \<Rightarrow> (r, heap0 w) | None \<Rightarrow> alloc [] (heap0 w)) = (r, s1)"
      by (cases "case hdrs of Some r \<Rightarrow> (r, heap0 w) | None \<Rightarrow> alloc [] (heap0 w)") auto
    obtain evs th s2 where se: "setEx P (now_exp w) (now_sec w) k er buf r tt st s1 = ((evs, th), s2)"
      by (cases "setEx P (now_exp w) (now_sec w) k er buf r tt st s1") auto
    have ev: "evs = [] \<or> (\<exists>t v. evs = [ClientSet k t v])"
      using setEx_events [of P "now_exp w" "now_sec w" k er buf r tt st s1] se by simp
    have "list_all background_event evs"
      using ev by (auto simp: background_event_def)
    then show ?thesis
      using False set_callback_background [of k "set_reply w"]
      by (cases th) (auto simp: on_fetched_def sr a se background_event_def)
  qed
qed

section \<open>Dates of the reference platform\<close>

lemma utc_parse_empty: "Date_parse utc_platform [] = None"
  by code_simp

lemma utc_parse_five_minutes:
  "js_date utc_platform (JStr ''Thu, 01 Jan 1970 00:05:00 GMT'') = Some 300000"
  by code_simp

lemma utc_parse_one_second:
  "js_date utc_platform (JStr ''Thu, 01 Jan 1970 00:00:01 GMT'') = Some 1000"
  by code_simp

section \<open>Error sentinels\<close>

text \<open>
  C9. Encoding a result whose error has status code 404 or 403 yields the three
  characters of the code, whatever the payload and the headers, and leaves the store of
  objects as it was. Decoding that value yields an entry that carries an error of the
  same status code, marked as coming from the cache, and neither payload nor headers.
\<close>

theorem error_sentinel_compact:
  assumes "statusCode e = Some c" and "c = 404 \<or> c = 403"
  shows "encode (Some e) buf hdrs s = (Inr (EncStr (dec_int c)), s)
         \<and> length (dec_int c) = 3
         \<and> decode (dec_int c)
             = Inr \<lparr>err = Some \<lparr>statusCode = Some c, tlcache = True, key = None\<rparr>,
                    headers = None, buffer = None\<rparr>"
proof -
  have ec: "errcode (Some e) = Some c"
    using assms by (auto simp: errcode_def)
  have enc: "encode (Some e) buf hdrs s = (Inr (EncStr (dec_int c)), s)"
    by (simp add: encode_def ec)
  from assms(2) show ?thesis
  proof
    assume "c = 404"
    then show ?thesis using enc by (simp add: dec_int_404 decode_def)
  next
    assume "c = 403"
    then show ?thesis using enc by (simp add: dec_int_403 decode_def)
  qed
qed

theorem error_sentinel_compact_witness:
  "statusCode not_found = Some 404
   \<and> encode (Some not_found) (PStr ''gone'') None empty_heap = (Inr (EncStr ''404''), empty_heap)
   \<and> length ''404'' = 3
   \<and> decode ''404''
       = Inr \<lparr>err = Some \<lparr>statusCode = Some 404, tlcache = True, key = None\<rparr>,
              headers = None, buffer = None\<rparr>"
proof -
  have h: "statusCode not_found = Some 404" by (simp add: not_found_def)
  show ?thesis
    using error_sentinel_compact [OF h, of "PStr ''gone''" None empty_heap] h
    by (simp add: dec_int_404)
qed

section \<open>Encoding\<close>

text \<open>
  C8, as the code has it. For a result without error whose payload is a non-empty
  string, a Buffer, an array or an object, the headers that count are the ones
  \<^verbatim>\<open>encode\<close> serialises: the headers passed in (none count as the empty object), with
  \<^verbatim>\<open>x-tl-json\<close> set to true when the payload is an array or an object. If their JSON text
  is longer than 1024 bytes, \<^verbatim>\<open>encode\<close> throws the header-size error. Otherwise it
  returns 1024 bytes that hold the text followed by spaces only, and then the bytes of
  the payload.
\<close>

theorem encode_header_block:
  assumes "payload_bytes buf = Some b"
    and "h = (case hdrs of Some r \<Rightarrow> cells s r | None \<Rightarrow> [])"
    and "hs = JSON_stringify (JObj (stored_headers buf h))"
  shows "(1024 < length hs \<longrightarrow> fst (encode None buf hdrs s) = Inl HeadersExceed)
         \<and> (length hs \<le> 1024 \<longrightarrow>
              (\<exists>bs. fst (encode None buf hdrs s) = Inr (EncBuf bs)
                    \<and> length bs = 1024 + length b
                    \<and> take 1024 bs = hs @ replicate (1024 - length hs) CHR '' ''
                    \<and> drop 1024 bs = b))
         \<and> (structured buf = None \<longrightarrow> hs = JSON_stringify (JObj h))"
proof (intro conjI impI)
  assume "1024 < length hs"
  then show "fst (encode None buf hdrs s) = Inl HeadersExceed"
    unfolding encode_result [OF assms(2)] assms(3) by simp
next
  assume le: "length hs \<le> 1024"
  have "fst (encode None buf hdrs s) = Inr (EncBuf (pad_to_1024 hs @ b))"
    using le unfolding encode_result [OF assms(2)] assms(3) [symmetric] assms(1) by simp
  moreover have "take 1024 (pad_to_1024 hs @ b) = hs @ replicate (1024 - length hs) CHR '' ''"
    using take_padded [OF le, of b] by (simp add: pad_to_1024_def)
  ultimately show "\<exists>bs. fst (encode None buf hdrs s) = Inr (EncBuf bs)
                    \<and> length bs = 1024 + length b
                    \<and> take 1024 bs = hs @ replicate (1024 - length hs) CHR '' ''
                    \<and> drop 1024 bs = b"
    using length_padded [OF le, of b] drop_padded [OF le, of b] by blast
next
  assume "structured buf = None"
  then show "hs = JSON_stringify (JObj h)"
    by (simp add: assms(3) stored_headers_def)
qed

theorem encode_header_block_witness:
  "payload_bytes (PDict [(''a'', JNum 1)]) = Some (JSON_stringify (JObj [(''a'', JNum 1)]))
   \<and> length (JSON_stringify (JObj (stored_headers (PDict [(''a'', JNum 1)]) etag_headers))) \<le> 1024
   \<and> (\<exists>bs. fst (encode None (PDict [(''a'', JNum 1)]) (Some 0) (heap_of etag_headers))
               = Inr (EncBuf bs)
           \<and> length bs = 1024 + length (JSON_stringify (JObj [(''a'', JNum 1)]))
           \<and> take 1024 bs
               = JSON_stringify (JObj (stored_headers (PDict [(''a'', JNum 1)]) etag_headers))
                 @ replicate (1024 - 31) CHR '' ''
           \<and> drop 1024 bs = JSON_stringify (JObj [(''a'', JNum 1)]))
   \<and> 1024 < length (JSON_stringify (JObj (stored_headers (PDict []) big_headers)))
   \<and> fst (encode None (PDict []) (Some 0) (heap_of big_headers)) = Inl HeadersExceed"
proof -
  have p: "payload_bytes (PDict [(''a'', JNum 1)]) = Some (JSON_stringify (JObj [(''a'', JNum 1)]))"
    by simp
  have h: "etag_headers = (case Some 0 of Some r \<Rightarrow> cells (heap_of etag_headers) r | None \<Rightarrow> [])"
    by (simp add: heap_of_def)
  note t = encode_header_block [OF p h refl]
  have le: "length (JSON_stringify (JObj (stored_headers (PDict [(''a'', JNum 1)]) etag_headers)))
              \<le> 1024"
    unfolding length_etag_stored by simp
  have first: "\<exists>bs. fst (encode None (PDict [(''a'', JNum 1)]) (Some 0) (heap_of etag_headers))
               = Inr (EncBuf bs)
           \<and> length bs = 1024 + length (JSON_stringify (JObj [(''a'', JNum 1)]))
           \<and> take 1024 bs
               = JSON_stringify (JObj (stored_headers (PDict [(''a'', JNum 1)]) etag_headers))
                 @ replicate (1024 - 31) CHR '' ''
           \<and> drop 1024 bs = JSON_stringify (JObj [(''a'', JNum 1)])"
    using t le unfolding length_etag_stored by blast
  have p2: "payload_bytes (PDict []) = Some (JSON_stringify (JObj []))" by simp
  have h2: "big_headers = (case Some 0 of Some r \<Rightarrow> cells (heap_of big_headers) r | None \<Rightarrow> [])"
    by (simp add: heap_of_def)
  have big: "1024 < length (JSON_stringify (JObj (stored_headers (PDict []) big_headers)))"
    unfolding length_big_stored by simp
  have second: "fst (encode None (PDict []) (Some 0) (heap_of big_headers)) = Inl HeadersExceed"
    using encode_header_block [OF p2 h2 refl] big by blast
  from p le first big second show ?thesis by blast
qed

text \<open>The claim as the specification states it fails twice. Headers whose JSON text
  has 1020 bytes are within the limit, yet \<^verbatim>\<open>encode\<close> throws the header-size error
  for an object payload, because the flag it adds brings the text to 1037 bytes. And
  with the empty headers, two bytes of JSON, \<^verbatim>\<open>encode\<close> of an absent payload throws
  a TypeError.\<close>

theorem encode_header_block_counterexample:
  "length (JSON_stringify (JObj big_headers)) \<le> 1024
   \<and> fst (encode None (PDict []) (Some 0) (heap_of big_headers)) = Inl HeadersExceed
   \<and> length (JSON_stringify (JObj [])) \<le> 1024
   \<and> fst (encode None PAbsent (Some 0) (heap_of [])) = Inl TypeError"
proof -
  have a: "length (JSON_stringify (JObj big_headers)) \<le> 1024"
    unfolding length_big_headers by simp
  have h: "[] = (case Some 0 of Some r \<Rightarrow> cells (heap_of []) r | None \<Rightarrow> [])"
    by (simp add: heap_of_def)
  have b: "fst (encode None PAbsent (Some 0) (heap_of [])) = Inl TypeError"
    unfolding encode_result [OF h] by (simp add: stored_headers_def)
  from a flag_overflow b show ?thesis by simp
qed

section \<open>Round trip\<close>

text \<open>
  C1, as the code has it. Take a result without error whose payload is a non-empty
  string, a Buffer, an array or an object, and headers that are an object (none count
  as the empty object). Suppose the headers as \<^verbatim>\<open>encode\<close> serialises them, with
  \<^verbatim>\<open>x-tl-json\<close> set to true for an array or an object, take at most 1024 bytes of JSON;
  for a string or a Buffer the headers do not already carry a truthy \<^verbatim>\<open>x-tl-json\<close>;
  and a truthy \<^verbatim>\<open>content-length\<close> occurs only with a string or a Buffer and is the
  byte length of the payload, as a number or as its decimal digits. Then \<^verbatim>\<open>encode\<close>
  returns a value and \<^verbatim>\<open>decode\<close> of that value returns the serialised headers with
  \<^verbatim>\<open>x-tl-cache\<close> set to \<^verbatim>\<open>hit\<close>, and the payload: the same bytes for a string or a
  Buffer, the same array or object for a structured payload.
\<close>

theorem decode_encode_roundtrip:
  assumes "payload_bytes buf = Some b"
    and "h = (case hdrs of Some r \<Rightarrow> cells s r | None \<Rightarrow> [])"
    and "wf_json (JObj h)"
    and "\<forall>j. structured buf = Some j \<longrightarrow> wf_json j"
    and "length (JSON_stringify (JObj (stored_headers buf h))) \<le> 1024"
    and "structured buf = None \<longrightarrow> \<not> truthy_opt (map_of h ''x-tl-json'')"
    and "\<forall>c. map_of h ''content-length'' = Some c \<and> truthy c \<longrightarrow>
           structured buf = None
           \<and> (c = JNum (int (length b)) \<or> c = JStr (dec_int (int (length b))))"
  shows "\<exists>bs. fst (encode None buf hdrs s) = Inr (EncBuf bs)
              \<and> decode bs
                  = Inr \<lparr>err = None,
                         headers = Some (JObj (obj_set (stored_headers buf h)
                                                 ''x-tl-cache'' (JStr ''hit''))),
                         buffer = Some (decoded_payload buf b)\<rparr>"
proof -
  define h' where "h' = stored_headers buf h"
  define hs where "hs = JSON_stringify (JObj h')"
  define H where "H = obj_set h' ''x-tl-cache'' (JStr ''hit'')"
  have le: "length hs \<le> 1024" using assms(5) by (simp add: hs_def h'_def)
  have enc: "fst (encode None buf hdrs s) = Inr (EncBuf (pad_to_1024 hs @ b))"
    using le unfolding encode_result [OF assms(2)] hs_def h'_def assms(1) by simp
  have ends: "hs = [] \<or> (\<not> is_trim_ws (hd hs) \<and> \<not> is_trim_ws (last hs))"
    unfolding hs_def using stringify_obj_ends [of h'] by blast
  have parse: "JSON_parse hs = Some (JObj h')"
    unfolding hs_def h'_def by (intro JSON_parse_stringify wf_stored_headers assms(3))
  have flag: "map_of H ''x-tl-json''
                = (if structured buf = None then map_of h ''x-tl-json'' else Some (JBool True))"
    by (simp add: H_def h'_def stored_headers_def)
  have cl: "map_of H ''content-length'' = map_of h ''content-length''"
    by (simp add: H_def h'_def stored_headers_def)
  have body: "(if truthy_opt (map_of H ''x-tl-json'') then
                 (case JSON_parse b of None \<Rightarrow> Inl SyntaxError | Some j \<Rightarrow> Inr (DJson j))
               else Inr (DBuf b)) = Inr (decoded_payload buf b)"
  proof (cases "structured buf")
    case None
    then show ?thesis using assms(6) by (simp add: flag decoded_payload_def)
  next
    case (Some j)
    then have wf: "wf_json j" using assms(4) by simp
    have "b = JSON_stringify j"
      using Some assms(1) by (cases buf) auto
    then have "JSON_parse b = Some j"
      using JSON_parse_stringify [OF wf] by simp
    then show ?thesis using Some by (simp add: flag decoded_payload_def truthy_opt_def)
  qed
  have chk: "content_length_check (map_of h ''content-length'') (decoded_payload buf b) = Inr ()"
  proof (cases "map_of h ''content-length''")
    case None
    then show ?thesis by (simp add: content_length_check_def)
  next
    case (Some c)
    show ?thesis
    proof (cases "truthy c")
      case False
      then show ?thesis using Some by (simp add: content_length_check_def)
    next
      case True
      with assms(7) Some have st: "structured buf = None"
        and c: "c = JNum (int (length b)) \<or> c = JStr (dec_int (int (length b)))"
        by auto
      have "\<not> loose_neq c (Some (JNum (int (length b))))"
        using c by (rule declared_length_matches)
      then show ?thesis
        using Some True st by (simp add: content_length_check_def decoded_payload_def)
    qed
  qed
  have "decode (pad_to_1024 hs @ b)
          = Inr \<lparr>err = None, headers = Some (JObj H), buffer = Some (decoded_payload buf b)\<rparr>"
    unfolding decode_padded [OF le ends] parse
    by (simp add: H_def [symmetric] body cl chk)
  then show ?thesis using enc by (simp add: H_def h'_def)
qed

lemma length_text_stored:
  "length (JSON_stringify (JObj (stored_headers (PStr ''hello'') text_headers))) = 22"
  by code_simp

theorem decode_encode_roundtrip_witness:
  "payload_bytes (PDict [(''a'', JNum 1)]) = Some (JSON_stringify (JObj [(''a'', JNum 1)]))
   \<and> wf_json (JObj etag_headers) \<and> wf_json (JObj [(''a'', JNum 1)])
   \<and> length (JSON_stringify (JObj (stored_headers (PDict [(''a'', JNum 1)]) etag_headers))) \<le> 1024
   \<and> map_of etag_headers ''content-length'' = None
   \<and> (\<exists>bs. fst (encode None (PDict [(''a'', JNum 1)]) (Some 0) (heap_of etag_headers))
               = Inr (EncBuf bs)
           \<and> decode bs
               = Inr \<lparr>err = None,
                      headers = Some (JObj [(''etag'', JStr ''abc''), (''x-tl-json'', JBool True),
                                            (''x-tl-cache'', JStr ''hit'')]),
                      buffer = Some (DJson (JObj [(''a'', JNum 1)]))\<rparr>)
   \<and> payload_bytes (PStr ''hello'') = Some ''hello''
   \<and> map_of text_headers ''content-length'' = Some (JStr (dec_int (int (length ''hello''))))
   \<and> (\<exists>bs. fst (encode None (PStr ''hello'') (Some 0) (heap_of text_headers)) = Inr (EncBuf bs)
           \<and> decode bs
               = Inr \<lparr>err = None,
                      headers = Some (JObj [(''content-length'', JStr ''5''),
                                            (''x-tl-cache'', JStr ''hit'')]),
                      buffer = Some (DBuf ''hello'')\<rparr>)"
proof -
  have p1: "payload_bytes (PDict [(''a'', JNum 1)]) = Some (JSON_stringify (JObj [(''a'', JNum 1)]))"
    by simp
  have h1: "etag_headers = (case Some 0 of Some r \<Rightarrow> cells (heap_of etag_headers) r | None \<Rightarrow> [])"
    by (simp add: heap_of_def)
  have w1: "wf_json (JObj etag_headers)" by (simp add: etag_headers_def)
  have w1': "wf_json (JObj [(''a'', JNum 1)])" by simp
  have w1'': "\<forall>j. structured (PDict [(''a'', JNum 1)]) = Some j \<longrightarrow> wf_json j" by simp
  have l1: "length (JSON_stringify (JObj (stored_headers (PDict [(''a'', JNum 1)]) etag_headers)))
              \<le> 1024"
    unfolding length_etag_stored by simp
  have f1: "structured (PDict [(''a'', JNum 1)]) = None
              \<longrightarrow> \<not> truthy_opt (map_of etag_headers ''x-tl-json'')" by simp
  have n1: "map_of etag_headers ''content-length'' = None" by (simp add: etag_headers_def)
  have c1: "\<forall>c. map_of etag_headers ''content-length'' = Some c \<and> truthy c \<longrightarrow>
           structured (PDict [(''a'', JNum 1)]) = None
           \<and> (c = JNum (int (length (JSON_stringify (JObj [(''a'', JNum 1)]))))
              \<or> c = JStr (dec_int (int (length (JSON_stringify (JObj [(''a'', JNum 1)]))))))"
    by (simp add: n1)
  have e1: "obj_set (stored_headers (PDict [(''a'', JNum 1)]) etag_headers) ''x-tl-cache'' (JStr ''hit'')
              = [(''etag'', JStr ''abc''), (''x-tl-json'', JBool True), (''x-tl-cache'', JStr ''hit'')]"
    by (simp add: stored_headers_def obj_set_def etag_headers_def)
  have first: "\<exists>bs. fst (encode None (PDict [(''a'', JNum 1)]) (Some 0) (heap_of etag_headers))
               = Inr (EncBuf bs)
           \<and> decode bs
               = Inr \<lparr>err = None,
                      headers = Some (JObj [(''etag'', JStr ''abc''), (''x-tl-json'', JBool True),
                                            (''x-tl-cache'', JStr ''hit'')]),
                      buffer = Some (DJson (JObj [(''a'', JNum 1)]))\<rparr>"
    using decode_encode_roundtrip [OF p1 h1 w1 w1'' l1 f1 c1]
    unfolding e1 by (simp add: decoded_payload_def)
  have p2: "payload_bytes (PStr ''hello'') = Some ''hello''" by simp
  have h2: "text_headers = (case Some 0 of Some r \<Rightarrow> cells (heap_of text_headers) r | None \<Rightarrow> [])"
    by (simp add: heap_of_def)
  have w2: "wf_json (JObj text_headers)" by (simp add: text_headers_def)
  have w2': "\<forall>j. structured (PStr ''hello'') = Some j \<longrightarrow> wf_json j" by simp
  have l2: "length (JSON_stringify (JObj (stored_headers (PStr ''hello'') text_headers))) \<le> 1024"
    unfolding length_text_stored by simp
  have f2: "structured (PStr ''hello'') = None
              \<longrightarrow> \<not> truthy_opt (map_of text_headers ''x-tl-json'')"
    by (simp add: text_headers_def truthy_opt_def)
  have five: "dec_int (int (length ''hello'')) = ''5''" by code_simp
  have n2: "map_of text_headers ''content-length'' = Some (JStr (dec_int (int (length ''hello''))))"
    unfolding five by (simp add: text_headers_def)
  have c2: "\<forall>c. map_of text_headers ''content-length'' = Some c \<and> truthy c \<longrightarrow>
           structured (PStr ''hello'') = None
           \<and> (c = JNum (int (length ''hello'')) \<or> c = JStr (dec_int (int (length ''hello''))))"
    unfolding n2 by simp
  have e2: "obj_set (stored_headers (PStr ''hello'') text_headers) ''x-tl-cache'' (JStr ''hit'')
              = [(''content-length'', JStr ''5''), (''x-tl-cache'', JStr ''hit'')]"
    by (simp add: stored_headers_def obj_set_def text_headers_def)
  have second: "\<exists>bs. fst (encode None (PStr ''hello'') (Some 0) (heap_of text_headers))
               = Inr (EncBuf bs)
           \<and> decode bs
               = Inr \<lparr>err = None,
                      headers = Some (JObj [(''content-length'', JStr ''5''),
                                            (''x-tl-cache'', JStr ''hit'')]),
                      buffer = Some (DBuf ''hello'')\<rparr>"
    using decode_encode_roundtrip [OF p2 h2 w2 w2' l2 f2 c2]
    unfolding e2 by (simp add: decoded_payload_def)
  from p1 w1 w1' l1 n1 first p2 n2 second show ?thesis by blast
qed

lemma length_flagged: "length (JSON_stringify (JObj flagged_headers)) = 19"
  by code_simp

lemma parse_flagged:
  "JSON_parse (JSON_stringify (JObj flagged_headers)) = Some (JObj flagged_headers)"
  by (rule JSON_parse_stringify) (simp add: flagged_headers_def)

lemma parse_hello: "JSON_parse ''hello'' = None"
  by code_simp

text \<open>The claim as the specification states it fails twice. A string payload under
  headers that carry a truthy \<^verbatim>\<open>x-tl-json\<close>, 19 bytes of JSON, is encoded, but
  \<^verbatim>\<open>decode\<close> then parses the payload as JSON and throws. And an object payload under
  headers of 1020 bytes of JSON is not encoded at all: the flag that \<^verbatim>\<open>encode\<close> adds
  takes the headers over the limit.\<close>

theorem decode_encode_roundtrip_counterexample:
  "length (JSON_stringify (JObj flagged_headers)) \<le> 1024
   \<and> fst (encode None (PStr ''hello'') (Some 0) (heap_of flagged_headers))
       = Inr (EncBuf (pad_to_1024 (JSON_stringify (JObj flagged_headers)) @ ''hello''))
   \<and> decode (pad_to_1024 (JSON_stringify (JObj flagged_headers)) @ ''hello'') = Inl SyntaxError
   \<and> length (JSON_stringify (JObj big_headers)) \<le> 1024
   \<and> fst (encode None (PDict []) (Some 0) (heap_of big_headers)) = Inl HeadersExceed"
proof -
  have le: "length (JSON_stringify (JObj flagged_headers)) \<le> 1024"
    unfolding length_flagged by simp
  have h: "flagged_headers
             = (case Some 0 of Some r \<Rightarrow> cells (heap_of flagged_headers) r | None \<Rightarrow> [])"
    by (simp add: heap_of_def)
  have st: "stored_headers (PStr ''hello'') flagged_headers = flagged_headers"
    by (simp add: stored_headers_def)
  have enc: "fst (encode None (PStr ''hello'') (Some 0) (heap_of flagged_headers))
       = Inr (EncBuf (pad_to_1024 (JSON_stringify (JObj flagged_headers)) @ ''hello''))"
    unfolding encode_result [OF h] st using le by simp
  have ends: "JSON_stringify (JObj flagged_headers) = []
              \<or> (\<not> is_trim_ws (hd (JSON_stringify (JObj flagged_headers)))
                 \<and> \<not> is_trim_ws (last (JSON_stringify (JObj flagged_headers))))"
    using stringify_obj_ends [of flagged_headers] by blast
  have dec: "decode (pad_to_1024 (JSON_stringify (JObj flagged_headers)) @ ''hello'')
               = Inl SyntaxError"
    unfolding decode_padded [OF le ends] parse_flagged
    by (simp add: flagged_headers_def obj_set_def truthy_opt_def parse_hello)
  have big: "length (JSON_stringify (JObj big_headers)) \<le> 1024"
    unfolding length_big_headers by simp
  from le enc dec big flag_overflow show ?thesis by blast
qed

section \<open>Short values\<close>






section \<open>Declared content length\<close>

text \<open>
  C5, evaluated. The headers declare a content length of 7 and the payload is the object
  \<^verbatim>\<open>{"a":1}\<close>. \<^verbatim>\<open>encode\<close> writes 1024 bytes of header block followed by the 7 bytes
  of the payload's JSON text, so the declared length equals the length of the raw
  payload. \<^verbatim>\<open>decode\<close> of that value fails with the content-length error all the same:
  it compares the declared length with the \<^verbatim>\<open>length\<close> property of the parsed object.
\<close>

theorem json_content_length_rejected:
  "fst (encode None (PDict [(''a'', JNum 1)]) (Some 0) (heap_of json_headers))
     = Inr (EncBuf json_value)
   \<and> length (drop 1024 json_value) = 7
   \<and> decode json_value = Inl ContentLengthMismatch"
proof -
  define hs where
    "hs = JSON_stringify (JObj [(''content-length'', JNum 7), (''x-tl-json'', JBool True)])"
  define p where "p = JSON_stringify (JObj [(''a'', JNum 1)])"
  have v: "json_value = pad_to_1024 hs @ p"
    by (simp add: json_value_def hs_def p_def)
  have len: "length hs = 37" unfolding hs_def by code_simp
  have le: "length hs \<le> 1024" unfolding len by simp
  have plen: "length p = 7" unfolding p_def by code_simp
  have h: "json_headers = (case Some 0 of Some r \<Rightarrow> cells (heap_of json_headers) r | None \<Rightarrow> [])"
    by (simp add: heap_of_def)
  have st: "JSON_stringify (JObj (stored_headers (PDict [(''a'', JNum 1)]) json_headers)) = hs"
    by (simp add: stored_headers_def json_headers_def obj_set_def hs_def)
  have enc: "fst (encode None (PDict [(''a'', JNum 1)]) (Some 0) (heap_of json_headers))
               = Inr (EncBuf json_value)"
    unfolding encode_result [OF h] st v using le by (simp add: p_def)
  have dr: "length (drop 1024 json_value) = 7"
    unfolding v drop_padded [OF le] by (rule plen)
  have ends: "hs = [] \<or> (\<not> is_trim_ws (hd hs) \<and> \<not> is_trim_ws (last hs))"
    unfolding hs_def
    using stringify_obj_ends [of "[(''content-length'', JNum 7), (''x-tl-json'', JBool True)]"]
    by blast
  have ph: "JSON_parse hs = Some (JObj [(''content-length'', JNum 7), (''x-tl-json'', JBool True)])"
    unfolding hs_def by (rule JSON_parse_stringify) simp
  have pp: "JSON_parse p = Some (JObj [(''a'', JNum 1)])"
    unfolding p_def by (rule JSON_parse_stringify) simp
  have dec: "decode json_value = Inl ContentLengthMismatch"
    unfolding v decode_padded [OF le ends] ph
    by (simp add: obj_set_def truthy_opt_def pp content_length_check_def loose_neq_def)
  from enc dr dec show ?thesis by blast
qed

section \<open>Freshness\<close>

lemma decode_headers_not_null:
  assumes "decode bs = Inr d"
  shows "headers d \<noteq> Some JNull"
proof (cases "length bs = 3 \<and> (bs = ''404'' \<or> bs = ''403'')")
  case True
  with assms show ?thesis by (auto simp: decode_def)
next
  case False
  with assms obtain h0 h where "prop_set h0 ''x-tl-cache'' (JStr ''hit'') = Inr h"
    and "headers d = Some h"
    by (auto simp: decode_def split: option.splits sum.splits)
  then show ?thesis using prop_set_not_null by auto
qed

lemma falsy_date:
  assumes "\<not> truthy v" and "Date_parse P [] = None" and "js_date P v = Some t"
  shows "t \<le> 0"
  using assms by (cases v) (auto split: if_splits)

text \<open>
  C7. For an entry that \<^verbatim>\<open>decode\<close> returned, at a clock reading that is not before
  the epoch and on a platform whose \<^verbatim>\<open>Date\<close> rejects the empty string, the freshness
  test answers without an exception, and it answers fresh exactly when the entry has
  headers, the headers carry \<^verbatim>\<open>x-tl-expires\<close>, that field denotes an instant, and the
  instant is strictly later than the reading. In particular an entry without headers,
  and one whose headers lack the field, is stale.
\<close>

theorem isFresh_iff:
  assumes "decode bs = Inr d" and "0 \<le> now" and "Date_parse P [] = None"
  shows "isFresh P now d
           = Inr (\<exists>h v t. headers d = Some h \<and> prop_get h ''x-tl-expires'' = Inr (Some v)
                          \<and> js_date P v = Some t \<and> now < t)
         \<and> (headers d = None \<longrightarrow> isFresh P now d = Inr False)
         \<and> (\<forall>h. headers d = Some h \<and> prop_get h ''x-tl-expires'' = Inr None
                \<longrightarrow> isFresh P now d = Inr False)"
proof (cases "headers d")
  case None
  then show ?thesis by (simp add: isFresh_def)
next
  case (Some h)
  have nn: "h \<noteq> JNull" using decode_headers_not_null [OF assms(1)] Some by auto
  then obtain g where g: "prop_get h ''x-tl-expires'' = Inr g" by (cases h) auto
  show ?thesis
  proof (cases g)
    case None
    then show ?thesis using Some g by (simp add: isFresh_def)
  next
    case v: (Some v)
    show ?thesis
    proof (cases "truthy v")
      case True
      then show ?thesis using Some g v by (cases "js_date P v") (simp_all add: isFresh_def)
    next
      case False
      have "\<not> (\<exists>t. js_date P v = Some t \<and> now < t)"
        using falsy_date [OF False assms(3)] assms(2) by fastforce
      then show ?thesis using Some g v False by (simp add: isFresh_def)
    qed
  qed
qed

lemma decode_fresh_text:
  "decode fresh_text
     = Inr \<lparr>err = None,
            headers = Some (JObj [(''x-tl-expires'', JStr ''Thu, 01 Jan 1970 00:05:00 GMT''),
                                  (''x-tl-cache'', JStr ''hit'')]),
            buffer = Some (DBuf [])\<rparr>"
  by code_simp

theorem isFresh_iff_witness:
  "(\<exists>d. decode fresh_text = Inr d
        \<and> isFresh utc_platform 1000 d = Inr True
        \<and> isFresh utc_platform 300000 d = Inr False)
   \<and> (0::int) \<le> 1000 \<and> Date_parse utc_platform [] = None"
proof -
  define d where
    "d = \<lparr>err = None,
          headers = Some (JObj [(''x-tl-expires'', JStr ''Thu, 01 Jan 1970 00:05:00 GMT''),
                                (''x-tl-cache'', JStr ''hit'')]),
          buffer = Some (DBuf [])\<rparr>"
  have dec: "decode fresh_text = Inr d"
    unfolding d_def by (rule decode_fresh_text)
  have a: "isFresh utc_platform 1000 d = Inr True"
    using isFresh_iff [OF dec, of 1000 utc_platform] utc_parse_empty utc_parse_five_minutes
    by (simp add: d_def)
  have b: "isFresh utc_platform 300000 d = Inr False"
    using isFresh_iff [OF dec, of 300000 utc_platform] utc_parse_empty utc_parse_five_minutes
    by (simp add: d_def)
  show ?thesis using dec a b utc_parse_empty by simp
qed

section \<open>Expiration and time to live\<close>







section \<open>Headers are updated in place\<close>

text \<open>
  C10. \<^verbatim>\<open>encode\<close>, given a structured payload, sets \<^verbatim>\<open>x-tl-json\<close> in the object its
  caller passed and changes nothing else. On a miss whose upstream result is to be
  cached and comes with a headers object \<open>r\<close>, the request allocates no object and
  changes no other one; afterwards \<open>r\<close> has no \<^verbatim>\<open>Expires\<close> field, has an
  \<^verbatim>\<open>x-tl-expires\<close> field, and has an \<^verbatim>\<open>expires\<close> field only if an explicit expiration
  was given, which is then its value. The caller's callback, unless \<^verbatim>\<open>encode\<close> threw,
  is called once, with the upstream error and payload and with \<open>r\<close> itself; after a
  write of a structured payload \<open>r\<close> carries the \<^verbatim>\<open>x-tl-json\<close> flag as well.
\<close>

theorem headers_updated_in_place:
  assumes "store_reply w = (None, None)"
    and "source_reply w = (er, buf, Some r)"
    and "er = None \<or> errcode er \<noteq> None"
    and "cachingGet_request P ns tt st w url = (evs, s')"
  shows "(\<forall>xs kvs s0. buf = PArr xs \<or> buf = PDict kvs \<longrightarrow>
            snd (encode None buf (Some r) s0) = heap_set r ''x-tl-json'' (JBool True) s0)
         \<and> nxt s' = nxt (heap0 w)
         \<and> (\<forall>r'. r' \<noteq> r \<longrightarrow> cells s' r' = cells (heap0 w) r')
         \<and> map_of (cells s' r) ''Expires'' = None
         \<and> (\<exists>x. map_of (cells s' r) ''x-tl-expires'' = Some x)
         \<and> map_of (cells s' r) ''expires''
             = (if truthy_opt (explicit_expires (heap0 w) r)
                then explicit_expires (heap0 w) r else None)
         \<and> (\<forall>a b h. Callback a b h \<in> set evs \<longrightarrow> a = er \<and> b = BPayload buf \<and> h = HRef r)
         \<and> ((\<exists>x. Uncaught x \<in> set evs) \<or> Callback er (BPayload buf) (HRef r) \<in> set evs)
         \<and> (\<forall>k t v xs kvs. ClientSet k t v \<in> set evs \<and> er = None
                \<and> (buf = PArr xs \<or> buf = PDict kvs)
              \<longrightarrow> map_of (cells s' r) ''x-tl-json'' = Some (JBool True))"
proof -
  define k where "k = ns @ ''-'' @ url"
  define s2 where "s2 = stamp_expires P (now_exp w) r tt (heap0 w)"
  obtain sevs thrown s3 where
    se: "setEx P (now_exp w) (now_sec w) k er buf r tt st (heap0 w) = ((sevs, thrown), s3)"
    by (metis surj_pair)
  have cacheable: "(er \<noteq> None \<and> errcode er = None) = False"
    using assms(3) by auto
  have of: "on_fetched P w k tt st True
              = (case thrown of
                   Some x \<Rightarrow> (sevs @ [Uncaught x], s3)
                 | None \<Rightarrow> (sevs @ [Callback er (BPayload buf) (HRef r)]
                             @ (if sevs = [] then [] else set_callback k (set_reply w)), s3))"
    unfolding on_fetched_def
    by (simp only: assms(2) prod.case cacheable if_False option.case Let_def se)
       (cases thrown; simp)
  have run: "cachingGet_request P ns tt st w url
               = (case on_fetched P w k tt st True of
                    (evs, s) \<Rightarrow> (ClientGet k # SourceGet url # evs, s))"
    by (simp add: cachingGet_request_def Let_def assms(1) k_def)
  have s': "s' = s3"
    using assms(4) unfolding run of by (cases thrown) auto
  have evs: "evs = ClientGet k # SourceGet url #
               (case thrown of
                  Some x \<Rightarrow> sevs @ [Uncaught x]
                | None \<Rightarrow> sevs @ [Callback er (BPayload buf) (HRef r)]
                            @ (if sevs = [] then [] else set_callback k (set_reply w)))"
    using assms(4) unfolding run of by (cases thrown) auto
  have sev: "sevs = [] \<or> (\<exists>t v. sevs = [ClientSet k t v])"
    using setEx_events [of P "now_exp w" "now_sec w" k er buf r tt st "heap0 w"] se by simp
  have hp: "s3 = s2 \<or> s3 = heap_set r ''x-tl-json'' (JBool True) s2"
    using setEx_heap [of P "now_exp w" "now_sec w" k er buf r tt st "heap0 w"] se
    by (simp add: s2_def)
  have enc: "\<forall>xs kvs s0. buf = PArr xs \<or> buf = PDict kvs \<longrightarrow>
            snd (encode None buf (Some r) s0) = heap_set r ''x-tl-json'' (JBool True) s0"
    using encode_structured_heap by blast
  have n: "nxt s' = nxt (heap0 w)"
    using hp s' stamp_expires_frame(1) [of P "now_exp w" r tt "heap0 w"]
    by (auto simp: s2_def)
  have fr: "\<forall>r'. r' \<noteq> r \<longrightarrow> cells s' r' = cells (heap0 w) r'"
    using hp s' stamp_expires_frame(2) [of _ r P "now_exp w" tt "heap0 w"]
    by (auto simp: s2_def)
  have up: "map_of (cells s' r) ''Expires'' = None"
    using hp s' stamp_expires_upper [of P "now_exp w" r tt "heap0 w"]
    by (auto simp: s2_def)
  have xe: "\<exists>x. map_of (cells s' r) ''x-tl-expires'' = Some x"
    using hp s' stamp_expires_field [of P "now_exp w" r tt "heap0 w"]
    by (auto simp: s2_def)
  have lo: "map_of (cells s' r) ''expires''
             = (if truthy_opt (explicit_expires (heap0 w) r)
                then explicit_expires (heap0 w) r else None)"
    using hp s' stamp_expires_lower [of P "now_exp w" r tt "heap0 w"]
    by (auto simp: s2_def)
  have cb: "\<forall>a b h. Callback a b h \<in> set evs \<longrightarrow> a = er \<and> b = BPayload buf \<and> h = HRef r"
    using sev set_callback_no_event(1) unfolding evs
    by (cases thrown) (auto split: if_splits)
  have deliv: "(\<exists>x. Uncaught x \<in> set evs) \<or> Callback er (BPayload buf) (HRef r) \<in> set evs"
    unfolding evs by (cases thrown) auto
  have fl: "\<forall>k' t v xs kvs. ClientSet k' t v \<in> set evs \<and> er = None
                \<and> (buf = PArr xs \<or> buf = PDict kvs)
              \<longrightarrow> map_of (cells s' r) ''x-tl-json'' = Some (JBool True)"
  proof (intro allI impI)
    fix k' t v xs kvs
    assume a: "ClientSet k' t v \<in> set evs \<and> er = None \<and> (buf = PArr xs \<or> buf = PDict kvs)"
    then have "ClientSet k' t v \<in> set sevs"
      using set_callback_no_event(2) unfolding evs by (cases thrown) (auto split: if_splits)
    then have "s3 = snd (encode er buf (Some r) s2)"
      using setEx_written [of k' t v P "now_exp w" "now_sec w" k er buf r tt st "heap0 w"] se
      by (simp add: s2_def)
    then have "s3 = heap_set r ''x-tl-json'' (JBool True) s2"
      using a encode_structured_heap [of buf xs kvs r s2] by auto
    then show "map_of (cells s' r) ''x-tl-json'' = Some (JBool True)"
      using s' by simp
  qed
  from enc n fr up xe lo cb deliv fl show ?thesis by blast
qed

lemma miss_run_stamped:
  "cells (stamp_expires utc_platform 5000 0 300 (heap_of expiring_headers)) 0
     = [(''expires'', JStr ''Thu, 01 Jan 1970 00:05:00 GMT''),
        (''x-tl-expires'', JStr ''Thu, 01 Jan 1970 00:05:00 GMT'')]"
  by (simp add: stamp_expires_def Let_def explicit_expires_def js_or_def truthy_opt_def
      stamp_value_def heap_of_def expiring_headers_def obj_set_def obj_delete_def)

lemma miss_run_length:
  "length (JSON_stringify (JObj
             [(''expires'', JStr ''Thu, 01 Jan 1970 00:05:00 GMT''),
              (''x-tl-expires'', JStr ''Thu, 01 Jan 1970 00:05:00 GMT''),
              (''x-tl-json'', JBool True)])) = 107"
  by code_simp

lemma miss_run_setEx:
  "fst (setEx utc_platform 5000 5000 ''TL4-/x'' None (PDict [(''a'', JNum 1)]) 0 300 300
          (heap_of expiring_headers))
     = ([ClientSet ''TL4-/x'' 295
          (EncBuf (pad_to_1024 (JSON_stringify (JObj
                     [(''expires'', JStr ''Thu, 01 Jan 1970 00:05:00 GMT''),
                      (''x-tl-expires'', JStr ''Thu, 01 Jan 1970 00:05:00 GMT''),
                      (''x-tl-json'', JBool True)]))
                   @ JSON_stringify (JObj [(''a'', JNum 1)])))], None)"
proof -
  have ex: "explicit_expires (heap_of expiring_headers) 0
              = Some (JStr ''Thu, 01 Jan 1970 00:05:00 GMT'')"
    by (simp add: explicit_expires_def js_or_def truthy_opt_def heap_of_def expiring_headers_def)
  have sv: "stamp_value utc_platform 5000 300 (explicit_expires (heap_of expiring_headers) 0)
              = JStr ''Thu, 01 Jan 1970 00:05:00 GMT''"
    by (simp add: ex stamp_value_def)
  have d: "js_date utc_platform
             (stamp_value utc_platform 5000 300 (explicit_expires (heap_of expiring_headers) 0))
             = Some 300000"
    unfolding sv by (rule utc_parse_five_minutes)
  have pos: "0 < - ((5000 - 300000) div (1000 :: int))" by simp
  have st: "stored_headers (PDict [(''a'', JNum 1)])
              [(''expires'', JStr ''Thu, 01 Jan 1970 00:05:00 GMT''),
               (''x-tl-expires'', JStr ''Thu, 01 Jan 1970 00:05:00 GMT'')]
            = [(''expires'', JStr ''Thu, 01 Jan 1970 00:05:00 GMT''),
               (''x-tl-expires'', JStr ''Thu, 01 Jan 1970 00:05:00 GMT''),
               (''x-tl-json'', JBool True)]"
    by (simp add: stored_headers_def obj_set_def)
  have h: "[(''expires'', JStr ''Thu, 01 Jan 1970 00:05:00 GMT''),
            (''x-tl-expires'', JStr ''Thu, 01 Jan 1970 00:05:00 GMT'')]
             = (case Some 0 of
                  Some r \<Rightarrow> cells (stamp_expires utc_platform 5000 0 300
                                      (heap_of expiring_headers)) r
                | None \<Rightarrow> [])"
    by (simp add: miss_run_stamped)
  have enc: "fst (encode None (PDict [(''a'', JNum 1)]) (Some 0)
                    (stamp_expires utc_platform 5000 0 300 (heap_of expiring_headers)))
               = Inr (EncBuf (pad_to_1024 (JSON_stringify (JObj
                     [(''expires'', JStr ''Thu, 01 Jan 1970 00:05:00 GMT''),
                      (''x-tl-expires'', JStr ''Thu, 01 Jan 1970 00:05:00 GMT''),
                      (''x-tl-json'', JBool True)]))
                   @ JSON_stringify (JObj [(''a'', JNum 1)])))"
    unfolding encode_result [OF h] st miss_run_length by simp
  show ?thesis
    using setEx_result [OF d pos enc, of "''TL4-/x''" 300] ex by (simp add: truthy_opt_def)
qed

lemma miss_run_events:
  "fst (cachingGet_request utc_platform ''TL4'' 300 300 miss_world ''/x'')
     = [ClientGet ''TL4-/x'', SourceGet ''/x'',
        ClientSet ''TL4-/x'' 295
          (EncBuf (pad_to_1024 (JSON_stringify (JObj
                     [(''expires'', JStr ''Thu, 01 Jan 1970 00:05:00 GMT''),
                      (''x-tl-expires'', JStr ''Thu, 01 Jan 1970 00:05:00 GMT''),
                      (''x-tl-json'', JBool True)]))
                   @ JSON_stringify (JObj [(''a'', JNum 1)]))),
        Callback None (BPayload (PDict [(''a'', JNum 1)])) (HRef 0)]"
proof -
  obtain out s3 where
    se: "setEx utc_platform 5000 5000 ''TL4-/x'' None (PDict [(''a'', JNum 1)]) 0 300 300
           (heap_of expiring_headers) = (out, s3)"
    by (metis surj_pair)
  have out: "out = ([ClientSet ''TL4-/x'' 295
          (EncBuf (pad_to_1024 (JSON_stringify (JObj
                     [(''expires'', JStr ''Thu, 01 Jan 1970 00:05:00 GMT''),
                      (''x-tl-expires'', JStr ''Thu, 01 Jan 1970 00:05:00 GMT''),
                      (''x-tl-json'', JBool True)]))
                   @ JSON_stringify (JObj [(''a'', JNum 1)])))], None)"
    using miss_run_setEx se by simp
  show ?thesis
    by (simp add: cachingGet_request_def Let_def on_fetched_def miss_world_def base_world_def
        errcode_def se out set_callback_def del: JSON_stringify.simps)
qed

theorem headers_updated_in_place_witness:
  "store_reply miss_world = (None, None)
   \<and> source_reply miss_world = (None, PDict [(''a'', JNum 1)], Some 0)
   \<and> map_of (cells (heap0 miss_world) 0) ''Expires''
       = Some (JStr ''Thu, 01 Jan 1970 00:05:00 GMT'')
   \<and> (\<exists>evs s'. cachingGet_request utc_platform ''TL4'' 300 300 miss_world ''/x'' = (evs, s')
         \<and> Callback None (BPayload (PDict [(''a'', JNum 1)])) (HRef 0) \<in> set evs
         \<and> nxt s' = nxt (heap0 miss_world)
         \<and> map_of (cells s' 0) ''Expires'' = None
         \<and> map_of (cells s' 0) ''expires'' = Some (JStr ''Thu, 01 Jan 1970 00:05:00 GMT'')
         \<and> (\<exists>x. map_of (cells s' 0) ''x-tl-expires'' = Some x)
         \<and> map_of (cells s' 0) ''x-tl-json'' = Some (JBool True))"
proof -
  have a: "store_reply miss_world = (None, None)"
    by (simp add: miss_world_def base_world_def)
  have b: "source_reply miss_world = (None, PDict [(''a'', JNum 1)], Some 0)"
    by (simp add: miss_world_def base_world_def)
  have c: "(None :: js_error option) = None \<or> errcode None \<noteq> None" by simp
  have h: "map_of (cells (heap0 miss_world) 0) ''Expires''
             = Some (JStr ''Thu, 01 Jan 1970 00:05:00 GMT'')"
    by (simp add: miss_world_def base_world_def heap_of_def expiring_headers_def)
  have ex: "explicit_expires (heap0 miss_world) 0 = Some (JStr ''Thu, 01 Jan 1970 00:05:00 GMT'')"
    by (simp add: explicit_expires_def h js_or_def truthy_opt_def)
  obtain evs s' where
    run: "cachingGet_request utc_platform ''TL4'' 300 300 miss_world ''/x'' = (evs, s')"
    by (metis surj_pair)
  have ev: "evs = [ClientGet ''TL4-/x'', SourceGet ''/x'',
        ClientSet ''TL4-/x'' 295
          (EncBuf (pad_to_1024 (JSON_stringify (JObj
                     [(''expires'', JStr ''Thu, 01 Jan 1970 00:05:00 GMT''),
                      (''x-tl-expires'', JStr ''Thu, 01 Jan 1970 00:05:00 GMT''),
                      (''x-tl-json'', JBool True)]))
                   @ JSON_stringify (JObj [(''a'', JNum 1)]))),
        Callback None (BPayload (PDict [(''a'', JNum 1)])) (HRef 0)]"
    using miss_run_events run by simp
  note t = headers_updated_in_place [OF a b c run]
  have cbk: "Callback None (BPayload (PDict [(''a'', JNum 1)])) (HRef 0) \<in> set evs"
    by (simp add: ev)
  have wr: "\<exists>k t v. ClientSet k t v \<in> set evs"
    by (simp add: ev)
  have f1: "nxt s' = nxt (heap0 miss_world)" using t by blast
  have f2: "map_of (cells s' 0) ''Expires'' = None" using t by blast
  have f3: "map_of (cells s' 0) ''expires'' = Some (JStr ''Thu, 01 Jan 1970 00:05:00 GMT'')"
    using t ex by (simp add: truthy_opt_def)
  have f4: "\<exists>x. map_of (cells s' 0) ''x-tl-expires'' = Some x" using t by blast
  have f5: "map_of (cells s' 0) ''x-tl-json'' = Some (JBool True)"
    using t wr by blast
  from a b h run cbk f1 f2 f3 f4 f5 show ?thesis by blast
qed

section \<open>Lookups\<close>

text \<open>
  C2, as the code has it. When the store holds the sentinel of a 404 or a 403, a lookup
  calls the caller's callback once, with the error rebuilt from the sentinel and neither
  payload nor headers, before anything else happens. The sentinel has no headers, so the
  entry counts as stale: the underlying fetch is then invoked once, in the background,
  and nothing that follows reaches the caller.
\<close>

theorem cached_error_replayed:
  assumes "store_reply w = (None, Some bs)" and "bs = ''404'' \<or> bs = ''403''"
  shows "\<exists>rest.
           fst (cachingGet_request P ns tt st w url)
             = [ClientGet (ns @ ''-'' @ url),
                Callback (Some \<lparr>statusCode = Some (if bs = ''404'' then 404 else 403),
                                tlcache = True, key = None\<rparr>) BUndef HUndef,
                SourceGet url] @ rest
           \<and> list_all background_event rest"
proof -
  obtain evs s where ofe: "on_fetched P w (ns @ ''-'' @ url) tt st False = (evs, s)"
    by (cases "on_fetched P w (ns @ ''-'' @ url) tt st False") auto
  have bg: "list_all background_event evs"
    using on_fetched_refresh_events [of P w "ns @ ''-'' @ url" tt st] ofe by simp
  have "fst (cachingGet_request P ns tt st w url)
          = [ClientGet (ns @ ''-'' @ url),
             Callback (Some \<lparr>statusCode = Some (if bs = ''404'' then 404 else 403),
                             tlcache = True, key = None\<rparr>) BUndef HUndef,
             SourceGet url] @ evs"
    using assms(2)
  proof
    assume "bs = ''404''"
    then show ?thesis
      using ofe by (simp add: cachingGet_request_def Let_def assms(1) decode_def isFresh_def)
  next
    assume "bs = ''403''"
    then show ?thesis
      using ofe by (simp add: cachingGet_request_def Let_def assms(1) decode_def isFresh_def)
  qed
  then show ?thesis using bg by blast
qed

theorem cached_error_replayed_witness:
  "store_reply sentinel_world = (None, Some ''404'')
   \<and> (\<exists>rest.
         fst (cachingGet_request utc_platform ''TL4'' 300 300 sentinel_world ''/x'')
           = [ClientGet ''TL4-/x'',
              Callback (Some \<lparr>statusCode = Some 404, tlcache = True, key = None\<rparr>) BUndef HUndef,
              SourceGet ''/x''] @ rest
         \<and> list_all background_event rest)"
proof -
  have h: "store_reply sentinel_world = (None, Some ''404'')"
    by (simp add: sentinel_world_def base_world_def)
  show ?thesis
    using cached_error_replayed [OF h, of utc_platform "''TL4''" 300 300 "''/x''"] h
    by simp
qed

text \<open>The claim as the specification states it fails: the lookup of a cached 404 does
  invoke the underlying fetch.\<close>

theorem cached_error_refetch_counterexample:
  "store_reply sentinel_world = (None, Some ''404'')
   \<and> SourceGet ''/x'' \<in> set (fst (cachingGet_request utc_platform ''TL4'' 300 300 sentinel_world ''/x''))"
  by (simp add: cachingGet_request_def Let_def sentinel_world_def base_world_def decode_def
      isFresh_def split: prod.splits)

section \<open>Refresh after a stale hit\<close>

lemma decode_expired_value:
  "decode expired_value
     = Inr \<lparr>err = None,
            headers = Some (JObj [(''x-tl-expires'', JStr ''Thu, 01 Jan 1970 00:00:01 GMT''),
                                  (''x-tl-cache'', JStr ''hit'')]),
            buffer = Some (DBuf ''hi'')\<rparr>"
proof -
  define hs where "hs = JSON_stringify (JObj expired_headers)"
  have len: "length hs = 48" unfolding hs_def by code_simp
  have le: "length hs \<le> 1024" unfolding len by simp
  have ends: "hs = [] \<or> (\<not> is_trim_ws (hd hs) \<and> \<not> is_trim_ws (last hs))"
    unfolding hs_def using stringify_obj_ends [of expired_headers] by blast
  have ph: "JSON_parse hs = Some (JObj expired_headers)"
    unfolding hs_def by (rule JSON_parse_stringify) (simp add: expired_headers_def)
  have "decode (pad_to_1024 hs @ ''hi'')
     = Inr \<lparr>err = None,
            headers = Some (JObj [(''x-tl-expires'', JStr ''Thu, 01 Jan 1970 00:00:01 GMT''),
                                  (''x-tl-cache'', JStr ''hit'')]),
            buffer = Some (DBuf ''hi'')\<rparr>"
    unfolding decode_padded [OF le ends] ph
    by (simp add: expired_headers_def obj_set_def truthy_opt_def content_length_check_def)
  then show ?thesis by (simp add: expired_value_def hs_def)
qed

text \<open>
  C3, evaluated. The store holds an entry that expired at second 1; the lookup happens at
  second 5 and the underlying fetch fails with status 500. The caller receives the stale
  payload, the fetch is invoked, no write follows, and the failure goes to
  \<^verbatim>\<open>client.emit('error', err)\<close>: the trace holds no call of \<^verbatim>\<open>client.error\<close>, the
  operation the three other reporting sites of the source use.
\<close>

theorem refresh_failure_emitted:
  "fst (cachingGet_request utc_platform ''TL4'' 300 300 stale_world ''/x'')
     = [ClientGet ''TL4-/x'',
        Callback None (BDecoded (DBuf ''hi''))
          (HVal (JObj [(''x-tl-expires'', JStr ''Thu, 01 Jan 1970 00:00:01 GMT''),
                       (''x-tl-cache'', JStr ''hit'')])),
        SourceGet ''/x'',
        ClientEmit ''error'' server_error]"
proof -
  have fr: "isFresh utc_platform 5000
              \<lparr>err = None,
               headers = Some (JObj [(''x-tl-expires'', JStr ''Thu, 01 Jan 1970 00:00:01 GMT''),
                                     (''x-tl-cache'', JStr ''hit'')]),
               buffer = Some (DBuf ''hi'')\<rparr> = Inr False"
    by (simp add: isFresh_def utc_parse_one_second del: js_date.simps)
  have ec: "errcode (Some server_error) = None"
    by (simp add: errcode_def server_error_def)
  have of: "on_fetched utc_platform stale_world ''TL4-/x'' 300 300 False
              = ([ClientEmit ''error'' server_error], heap_of [])"
    by (simp add: on_fetched_def stale_world_def base_world_def ec)
  show ?thesis
    using of
    by (simp add: cachingGet_request_def Let_def decode_expired_value fr
        stale_world_def base_world_def)
qed

end
